theory Spec2Isabelle
  imports Main
begin

section \<open>Data model\<close>

text \<open>
  Timestamps are the ISO strings the services write with \<^verbatim>\<open>new Date().toISOString()\<close>;
  they are modelled by the instant they denote, in milliseconds. Identifiers are the
  strings \<^verbatim>\<open>uuidv4()\<close> returns; the operations take them as arguments.
\<close>

type_synonym timestamp = int

datatype sync_status = Pending | Synced | Error

datatype operation = Create | Update | Delete

text \<open>The \<^verbatim>\<open>Task\<close> type, as \<^verbatim>\<open>rowToTask\<close> builds it from a row of table \<^verbatim>\<open>tasks\<close>.\<close>

record task =
  id_t :: string
  title :: string
  description :: "string option"
  completed :: bool
  created_at :: timestamp
  updated_at :: timestamp
  is_deleted :: bool
  sync_status :: sync_status
  server_id :: "string option"
  last_synced_at :: "timestamp option"

text \<open>
  \<^verbatim>\<open>Partial<Task>\<close>: every field may be absent (\<open>None\<close>). A field that can also
  be present with the value \<^verbatim>\<open>null\<close> has a second \<open>option\<close>.
\<close>

record partial_task =
  p_title :: "string option"
  p_description :: "string option option"
  p_completed :: "bool option"
  p_updated_at :: "timestamp option"
  p_server_id :: "string option option"
  p_last_synced_at :: "timestamp option"

text \<open>The JSON snapshot the task service stores in column \<^verbatim>\<open>data\<close> of the queue.\<close>

record payload =
  id_p :: string
  title_p :: string
  description_p :: "string option"
  completed_p :: bool
  created_at_p :: timestamp
  updated_at_p :: timestamp
  is_deleted_p :: bool

text \<open>\<^verbatim>\<open>SyncQueueItem\<close>, a row of table \<^verbatim>\<open>sync_queue\<close>.\<close>

record sync_queue_item =
  id_q :: string
  task_id :: string
  operation :: operation
  data :: payload
  created_at_q :: timestamp
  retry_count :: int
  error_message :: "string option"

record db =
  tasks :: "task list"
  sync_queue :: "sync_queue_item list"

subsection \<open>The statements the services run on the database\<close>

definition select_task_by_id :: "string \<Rightarrow> db \<Rightarrow> task option" where
  \<comment> \<open>Modelled from the spec: class \<^verbatim>\<open>Database\<close> is not among the sources; the store
      offers select-by-id over the records. \<^verbatim>\<open>db.get(SELECT * FROM tasks WHERE id = ?)\<close>
      is the first matching row, or nothing.\<close>
  "select_task_by_id i s = find (\<lambda>r. id_t r = i) (tasks s)"

definition insert_task :: "task \<Rightarrow> db \<Rightarrow> db" where
  \<comment> \<open>Modelled from the spec: \<^verbatim>\<open>INSERT INTO tasks\<close> adds one row.\<close>
  "insert_task r s = s\<lparr>tasks := tasks s @ [r]\<rparr>"

definition update_tasks_where_id :: "string \<Rightarrow> (task \<Rightarrow> task) \<Rightarrow> db \<Rightarrow> db" where
  \<comment> \<open>Modelled from the spec: \<^verbatim>\<open>UPDATE tasks SET ... WHERE id = ?\<close> rewrites the
      matching rows and no other.\<close>
  "update_tasks_where_id i f s = s\<lparr>tasks := map (\<lambda>r. if id_t r = i then f r else r) (tasks s)\<rparr>"

definition insert_sync_queue :: "sync_queue_item \<Rightarrow> db \<Rightarrow> db" where
  \<comment> \<open>Modelled from the spec: \<^verbatim>\<open>INSERT INTO sync_queue\<close> adds one row.\<close>
  "insert_sync_queue q s = s\<lparr>sync_queue := sync_queue s @ [q]\<rparr>"

definition update_sync_queue_where_id ::
  "string \<Rightarrow> (sync_queue_item \<Rightarrow> sync_queue_item) \<Rightarrow> db \<Rightarrow> db" where
  \<comment> \<open>Modelled from the spec: \<^verbatim>\<open>UPDATE sync_queue SET ... WHERE id = ?\<close>.\<close>
  "update_sync_queue_where_id i f s =
     s\<lparr>sync_queue := map (\<lambda>q. if id_q q = i then f q else q) (sync_queue s)\<rparr>"

definition delete_sync_queue_where_task_id :: "string \<Rightarrow> db \<Rightarrow> db" where
  \<comment> \<open>Modelled from the spec: \<^verbatim>\<open>DELETE FROM sync_queue WHERE task_id = ?\<close>.\<close>
  "delete_sync_queue_where_task_id i s =
     s\<lparr>sync_queue := filter (\<lambda>q. task_id q \<noteq> i) (sync_queue s)\<rparr>"

definition select_sync_queue_ordered :: "db \<Rightarrow> sync_queue_item list" where
  \<comment> \<open>Modelled from the spec: \<^verbatim>\<open>SELECT * FROM sync_queue ORDER BY created_at ASC\<close>;
      rows with equal keys keep their insertion order.\<close>
  "select_sync_queue_ordered s = sort_key created_at_q (sync_queue s)"

section \<open>The task service\<close>

text \<open>
  \<^verbatim>\<open>String.prototype.trim\<close> on the characters of a \<open>string\<close>: white space is
  removed at both ends.
\<close>

definition is_ws :: "char \<Rightarrow> bool" where
  "is_ws c \<longleftrightarrow> c = CHR 0x09 \<or> c = CHR 0x0A \<or> c = CHR 0x0B \<or> c = CHR 0x0C \<or> c = CHR 0x0D
     \<or> c = CHR 0x20 \<or> c = CHR 0xA0"

definition trim :: "string \<Rightarrow> string" where
  "trim s = rev (dropWhile is_ws (rev (dropWhile is_ws s)))"

datatype error = TitleRequired

definition createTask ::
  "string \<Rightarrow> string \<Rightarrow> timestamp \<Rightarrow> partial_task \<Rightarrow> db \<Rightarrow> (error + task option) \<times> db" where
  \<comment> \<open>\<open>i\<close> and \<open>queueId\<close> are the two \<^verbatim>\<open>uuidv4()\<close> results, \<open>now\<close> is \<^verbatim>\<open>nowIso()\<close>.\<close>
  "createTask i queueId now taskData s =
     (let title' = trim (case p_title taskData of None \<Rightarrow> [] | Some t \<Rightarrow> t) in
      if title' = [] then (Inl TitleRequired, s)
      else
        let description' =
              (case p_description taskData of
                 Some (Some d) \<Rightarrow> if d = [] then None else Some d
               | _ \<Rightarrow> None);
            completed' = (case p_completed taskData of Some c \<Rightarrow> c | None \<Rightarrow> False);
            s1 = insert_task
                   \<lparr>id_t = i, title = title', description = description',
                    completed = completed', created_at = now, updated_at = now,
                    is_deleted = False, sync_status = Pending, server_id = None,
                    last_synced_at = None\<rparr> s;
            s2 = insert_sync_queue
                   \<lparr>id_q = queueId, task_id = i, operation = Create,
                    data = \<lparr>id_p = i, title_p = title', description_p = description',
                            completed_p = completed', created_at_p = now,
                            updated_at_p = now, is_deleted_p = False\<rparr>,
                    created_at_q = now, retry_count = 0, error_message = None\<rparr> s1
        in (Inr (select_task_by_id i s2), s2))"

definition updateTask ::
  "string \<Rightarrow> string \<Rightarrow> timestamp \<Rightarrow> partial_task \<Rightarrow> db \<Rightarrow> task option \<times> db" where
  "updateTask i queueId now updates s =
     (case select_task_by_id i s of
        None \<Rightarrow> (None, s)
      | Some existing \<Rightarrow>
          if is_deleted existing then (None, s)
          else
            let title' = (case p_title updates of Some t \<Rightarrow> trim t | None \<Rightarrow> title existing);
                description' =
                  (case p_description updates of Some d \<Rightarrow> d | None \<Rightarrow> description existing);
                completed' =
                  (case p_completed updates of Some c \<Rightarrow> c | None \<Rightarrow> completed existing);
                s1 = update_tasks_where_id i
                       (\<lambda>r. r\<lparr>title := title', description := description',
                               completed := completed', updated_at := now,
                               sync_status := Pending\<rparr>) s;
                s2 = insert_sync_queue
                       \<lparr>id_q = queueId, task_id = i, operation = Update,
                        data = \<lparr>id_p = i, title_p = title', description_p = description',
                                completed_p = completed',
                                created_at_p = created_at existing,
                                updated_at_p = now, is_deleted_p = False\<rparr>,
                        created_at_q = now, retry_count = 0, error_message = None\<rparr> s1
            in (select_task_by_id i s2, s2))"

definition deleteTask :: "string \<Rightarrow> string \<Rightarrow> timestamp \<Rightarrow> db \<Rightarrow> bool \<times> db" where
  "deleteTask i queueId now s =
     (case select_task_by_id i s of
        None \<Rightarrow> (False, s)
      | Some existing \<Rightarrow>
          if is_deleted existing then (False, s)
          else
            let s1 = update_tasks_where_id i
                       (\<lambda>r. r\<lparr>is_deleted := True, updated_at := now,
                               sync_status := Pending\<rparr>) s;
                s2 = insert_sync_queue
                       \<lparr>id_q = queueId, task_id = i, operation = Delete,
                        data = \<lparr>id_p = i, title_p = title existing,
                                description_p = description existing,
                                completed_p = completed existing,
                                created_at_p = created_at existing,
                                updated_at_p = now, is_deleted_p = True\<rparr>,
                        created_at_q = now, retry_count = 0, error_message = None\<rparr> s1
            in (True, s2))"

definition getTask :: "string \<Rightarrow> db \<Rightarrow> task option" where
  "getTask i s =
     (case select_task_by_id i s of
        None \<Rightarrow> None
      | Some t \<Rightarrow> if is_deleted t then None else Some t)"

definition getAllTasks :: "db \<Rightarrow> task list" where
  \<comment> \<open>\<^verbatim>\<open>WHERE is_deleted = 0 ORDER BY updated_at DESC\<close>\<close>
  "getAllTasks s = sort_key (\<lambda>r. - updated_at r) (filter (\<lambda>r. \<not> is_deleted r) (tasks s))"

definition getTasksNeedingSync :: "db \<Rightarrow> task list" where
  "getTasksNeedingSync s =
     sort_key updated_at
       (filter (\<lambda>r. sync_status r = Pending \<or> sync_status r = Error) (tasks s))"

section \<open>The sync service\<close>

text \<open>
  An exception value, with its \<^verbatim>\<open>name\<close> and \<^verbatim>\<open>message\<close>.
  \<^verbatim>\<open>String(err.message || err)\<close> is the message unless it is empty, and then the
  rendering of the error itself, which for an empty message is its name.
\<close>

datatype js_error = JsError string string

fun errText :: "js_error \<Rightarrow> string" where
  "errText (JsError name message) = (if message = [] then name else message)"

datatype item_status = StSuccess | StConflict | StError

text \<open>One element of \<^verbatim>\<open>processed_items\<close> in a \<^verbatim>\<open>BatchSyncResponse\<close>.\<close>

record processed_item =
  client_id :: string
  server_id_pi :: "string option"
  status :: item_status
  resolved_data :: "partial_task option"
  error_pi :: "string option"

text \<open>
  What \<^verbatim>\<open>axios.post\<close> does with a batch: it throws, or it returns a body whose
  \<^verbatim>\<open>processed_items\<close> may be missing.
\<close>

datatype batch_outcome = PostFails js_error | PostReturns "processed_item list option"

record sync_error =
  task_id_e :: string
  operation_e :: string
  error_e :: string
  timestamp_e :: timestamp

record sync_result =
  success :: bool
  synced_items :: int
  failed_items :: int
  errors :: "sync_error list"

text \<open>
  The two settings the constructor reads with \<^verbatim>\<open>parseInt\<close>
  (\<^verbatim>\<open>SYNC_BATCH_SIZE\<close>, \<^verbatim>\<open>SYNC_RETRY_ATTEMPTS\<close>), and their defaults.
\<close>

record config =
  batchSize :: int
  maxRetries :: int

definition DEFAULT_BATCH :: int where
  "DEFAULT_BATCH = 50"

definition DEFAULT_RETRIES :: int where
  "DEFAULT_RETRIES = 3"

definition default_config :: config where
  "default_config = \<lparr>batchSize = DEFAULT_BATCH, maxRetries = DEFAULT_RETRIES\<rparr>"

text \<open>
  What lies outside the process during one run of \<^verbatim>\<open>sync()\<close>: whether
  \<^verbatim>\<open>GET /health\<close> answers, what \<^verbatim>\<open>POST /batch\<close> does with the \<open>k\<close>-th batch
  posted in the run, and the reading of the clock.
\<close>

record env =
  health :: bool
  remote :: "nat \<Rightarrow> sync_queue_item list \<Rightarrow> batch_outcome"
  clock :: timestamp

definition checkConnectivity :: "env \<Rightarrow> bool" where
  "checkConnectivity e = health e"

definition fetchSyncQueueItems :: "db \<Rightarrow> sync_queue_item list" where
  "fetchSyncQueueItems s = select_sync_queue_ordered s"

definition op_name :: "operation \<Rightarrow> string" where
  "op_name x = (case x of Create \<Rightarrow> ''create'' | Update \<Rightarrow> ''update'' | Delete \<Rightarrow> ''delete'')"

definition spread_server_data :: "string option \<Rightarrow> partial_task option \<Rightarrow> partial_task" where
  \<comment> \<open>\<^verbatim>\<open>{ server_id: pi.server_id, ...pi.resolved_data }\<close>: a \<^verbatim>\<open>server_id\<close> key of
      \<^verbatim>\<open>resolved_data\<close> replaces the item's.\<close>
  "spread_server_data sid rd =
     (case rd of
        None \<Rightarrow> \<lparr>p_title = None, p_description = None, p_completed = None,
                  p_updated_at = None, p_server_id = Some sid,
                  p_last_synced_at = None\<rparr>
      | Some d \<Rightarrow>
          d\<lparr>p_server_id := (case p_server_id d of None \<Rightarrow> Some sid | Some v \<Rightarrow> Some v)\<rparr>)"

definition updateSyncStatus ::
  "string \<Rightarrow> sync_status \<Rightarrow> partial_task option \<Rightarrow> timestamp \<Rightarrow> db \<Rightarrow> db" where
  "updateSyncStatus taskId st serverData now s =
     (let server_id' =
            (case serverData of
               None \<Rightarrow> None
             | Some d \<Rightarrow> (case p_server_id d of Some (Some x) \<Rightarrow> Some x | _ \<Rightarrow> None));
          s1 = update_tasks_where_id taskId
                 (\<lambda>r. r\<lparr>sync_status := st, server_id := server_id',
                         last_synced_at := Some now\<rparr>) s
      in if st = Synced then delete_sync_queue_where_task_id taskId s1 else s1)"

definition handleSyncError :: "config \<Rightarrow> sync_queue_item \<Rightarrow> js_error \<Rightarrow> db \<Rightarrow> db" where
  "handleSyncError cfg item err s =
     (let newRetry = retry_count item + 1;
          s1 = update_sync_queue_where_id (id_q item)
                 (\<lambda>q. q\<lparr>retry_count := newRetry, error_message := Some (errText err)\<rparr>) s
      in if newRetry \<ge> maxRetries cfg
         then update_tasks_where_id (task_id item) (\<lambda>r. r\<lparr>sync_status := Error\<rparr>) s1
         else s1)"

definition or_default :: "string option \<Rightarrow> string \<Rightarrow> string" where
  \<comment> \<open>\<^verbatim>\<open>x || d\<close> on an optional string: the empty string is falsy too.\<close>
  "or_default x d = (case x of None \<Rightarrow> d | Some v \<Rightarrow> if v = [] then d else v)"

definition handleProcessedItem ::
  "config \<Rightarrow> timestamp \<Rightarrow> sync_queue_item list \<Rightarrow> processed_item \<Rightarrow> db \<times> sync_result
     \<Rightarrow> db \<times> sync_result" where
  \<comment> \<open>the body of the loop over \<^verbatim>\<open>batchResp.processed_items\<close>\<close>
  "handleProcessedItem cfg now batch pi sr =
     (case sr of (s, res) \<Rightarrow>
       (case status pi of
          StSuccess \<Rightarrow>
            (updateSyncStatus (client_id pi) Synced
               (Some (spread_server_data (server_id_pi pi) (resolved_data pi))) now s,
             res\<lparr>synced_items := synced_items res + 1\<rparr>)
        | StConflict \<Rightarrow>
            (updateSyncStatus (client_id pi) Synced
               (Some (spread_server_data (server_id_pi pi) (resolved_data pi))) now s,
             res\<lparr>synced_items := synced_items res + 1\<rparr>)
        | StError \<Rightarrow>
            (let res' = res\<lparr>failed_items := failed_items res + 1, success := False,
                            errors := errors res @
                              [\<lparr>task_id_e = client_id pi, operation_e = ''sync'',
                                error_e = or_default (error_pi pi) ''unknown'',
                                timestamp_e = now\<rparr>]\<rparr>
             in (case find (\<lambda>it. task_id it = client_id pi) batch of
                   None \<Rightarrow> (s, res')
                 | Some queueItem \<Rightarrow>
                     (handleSyncError cfg queueItem
                        (JsError ''Error'' (or_default (error_pi pi) ''sync error'')) s,
                      res')))))"

fun processItems ::
  "config \<Rightarrow> timestamp \<Rightarrow> sync_queue_item list \<Rightarrow> processed_item list \<Rightarrow> db \<times> sync_result
     \<Rightarrow> db \<times> sync_result" where
  "processItems cfg now batch [] sr = sr"
| "processItems cfg now batch (pi # pis) sr =
     processItems cfg now batch pis (handleProcessedItem cfg now batch pi sr)"

definition failItem ::
  "config \<Rightarrow> timestamp \<Rightarrow> js_error \<Rightarrow> sync_queue_item \<Rightarrow> db \<times> sync_result \<Rightarrow> db \<times> sync_result" where
  \<comment> \<open>the body of the loop in the \<^verbatim>\<open>catch\<close> clause\<close>
  "failItem cfg now err item sr =
     (case sr of (s, res) \<Rightarrow>
       (handleSyncError cfg item err s,
        res\<lparr>failed_items := failed_items res + 1, success := False,
            errors := errors res @
              [\<lparr>task_id_e = task_id item, operation_e = op_name (operation item),
                error_e = errText err, timestamp_e = now\<rparr>]\<rparr>))"

fun failBatch ::
  "config \<Rightarrow> timestamp \<Rightarrow> js_error \<Rightarrow> sync_queue_item list \<Rightarrow> db \<times> sync_result
     \<Rightarrow> db \<times> sync_result" where
  "failBatch cfg now err [] sr = sr"
| "failBatch cfg now err (item # rest) sr = failBatch cfg now err rest (failItem cfg now err item sr)"

text \<open>
  The state of one run: the database, the result under construction, and the batches
  handed to \<^verbatim>\<open>processBatch\<close> so far, in the order they were posted.
\<close>

record sync_run =
  store :: db
  result :: sync_result
  posted :: "sync_queue_item list list"

definition slice :: "'a list \<Rightarrow> int \<Rightarrow> int \<Rightarrow> 'a list" where
  \<comment> \<open>\<^verbatim>\<open>Array.prototype.slice\<close> for \<open>0 \<le> i \<le> j\<close>, the only arguments the loop uses
      when the batch size is positive\<close>
  "slice xs i j = take (nat (j - i)) (drop (nat i) xs)"

definition batchStep :: "config \<Rightarrow> env \<Rightarrow> sync_queue_item list \<Rightarrow> sync_run \<Rightarrow> sync_run" where
  \<comment> \<open>the \<^verbatim>\<open>try\<close>/\<^verbatim>\<open>catch\<close> statement of the batch loop\<close>
  "batchStep cfg e batch run =
     (let sr = (store run, result run);
          sr' = (case remote e (length (posted run)) batch of
                   PostFails err \<Rightarrow> failBatch cfg (clock e) err batch sr
                 | PostReturns None \<Rightarrow> sr
                 | PostReturns (Some pis) \<Rightarrow> processItems cfg (clock e) batch pis sr)
      in \<lparr>store = fst sr', result = snd sr', posted = posted run @ [batch]\<rparr>)"

function syncLoop ::
  "config \<Rightarrow> env \<Rightarrow> sync_queue_item list \<Rightarrow> int \<Rightarrow> sync_run \<Rightarrow> sync_run option" where
  "syncLoop cfg e items i run =
     (if i < int (length items)
      then (if batchSize cfg \<le> 0 then None
            else syncLoop cfg e items (i + batchSize cfg)
                   (batchStep cfg e (slice items i (i + batchSize cfg)) run))
      else Some run)"
  by pat_completeness auto
termination
  by (relation "measure (\<lambda>(cfg, e, items, i, run). nat (int (length items) - i))") auto

declare syncLoop.simps [simp del]

definition empty_result :: sync_result where
  "empty_result = \<lparr>success = True, synced_items = 0, failed_items = 0, errors = []\<rparr>"

definition sync :: "config \<Rightarrow> env \<Rightarrow> db \<Rightarrow> sync_run option" where
  \<comment> \<open>\<open>None\<close>: the call never returns (a batch size that is not positive, with a
      queue that is not empty, keeps the loop running).\<close>
  "sync cfg e s =
     (if \<not> checkConnectivity e
      then Some \<lparr>store = s,
                 result = empty_result\<lparr>success := False,
                            errors := [\<lparr>task_id_e = [], operation_e = ''sync'',
                                        error_e = ''Offline'', timestamp_e = clock e\<rparr>]\<rparr>,
                 posted = []\<rparr>
      else
        let items = fetchSyncQueueItems s in
        if items = [] then Some \<lparr>store = s, result = empty_result, posted = []\<rparr>
        else syncLoop cfg e items 0 \<lparr>store = s, result = empty_result, posted = []\<rparr>)"

text \<open>
  The partition of a list into consecutive batches of \<open>n\<close> elements, the last one
  possibly shorter: what the specification calls fixed-size batches. The loop of
  \<^verbatim>\<open>sync\<close> is compared with it below.
\<close>

function batches_of :: "nat \<Rightarrow> 'a list \<Rightarrow> 'a list list" where
  "batches_of n xs = (if n = 0 \<or> xs = [] then [] else take n xs # batches_of n (drop n xs))"
  by pat_completeness auto
termination
  by (relation "measure (\<lambda>(n, xs). length xs)") auto

declare batches_of.simps [simp del]

section \<open>The route that updates a task\<close>

text \<open>
  A value of a JSON request body, as far as the handler tells values apart:
  \<^verbatim>\<open>typeof\<close> and truthiness. \<open>JObject\<close> stands for every array and object.
\<close>

datatype json = JNull | JBool bool | JNum int | JStr string | JObject

fun truthy :: "json \<Rightarrow> bool" where
  "truthy JNull = False"
| "truthy (JBool b) = b"
| "truthy (JNum n) = (n \<noteq> 0)"
| "truthy (JStr t) = (t \<noteq> [])"
| "truthy JObject = True"

text \<open>
  The three fields the handler reads from \<^verbatim>\<open>req.body\<close>; \<open>None\<close> is
  \<^verbatim>\<open>undefined\<close>. The description is passed on as it is, so it has the values of
  \<^verbatim>\<open>Partial<Task>\<close>: absent, \<^verbatim>\<open>null\<close> or a string.
\<close>

record put_body =
  b_title :: "json option"
  b_description :: "string option option"
  b_completed :: "json option"

datatype response = Res nat string | ResTask nat task

definition rejected_title :: "json option \<Rightarrow> bool" where
  \<comment> \<open>the guard of the handler: \<^verbatim>\<open>title !== undefined\<close> and
      \<^verbatim>\<open>typeof title !== 'string' || !title.trim()\<close>\<close>
  "rejected_title t =
     (case t of None \<Rightarrow> False | Some (JStr x) \<Rightarrow> trim x = [] | Some _ \<Rightarrow> True)"

definition putTask ::
  "string \<Rightarrow> string \<Rightarrow> timestamp \<Rightarrow> put_body \<Rightarrow> db \<Rightarrow> response \<times> db" where
  \<comment> \<open>\<^verbatim>\<open>router.put('/:id', ...)\<close>\<close>
  "putTask i queueId now body s =
     (if rejected_title (b_title body)
      then (Res 400 ''If provided, title must be a non-empty string'', s)
      else
        let updates =
              \<lparr>p_title = (case b_title body of Some (JStr t) \<Rightarrow> Some (trim t) | _ \<Rightarrow> None),
               p_description = b_description body,
               p_completed = map_option truthy (b_completed body),
               p_updated_at = None, p_server_id = None,
               p_last_synced_at = None\<rparr>
        in (case updateTask i queueId now updates s of
              (None, s') \<Rightarrow> (Res 404 ''Task not found'', s')
            | (Some updated, s') \<Rightarrow> (ResTask 200 updated, s')))"

section \<open>Reachable states\<close>

text \<open>
  The states the two services can bring the database into, starting from empty tables.
  A created task gets an identifier no row has yet (\<^verbatim>\<open>uuidv4()\<close>).
\<close>

definition empty_db :: db where
  "empty_db = \<lparr>tasks = [], sync_queue = []\<rparr>"

inductive reachable :: "db \<Rightarrow> bool" where
  r_empty: "reachable empty_db"
| r_create: "reachable s \<Longrightarrow> i \<notin> set (map id_t (tasks s))
     \<Longrightarrow> reachable (snd (createTask i queueId now taskData s))"
| r_update: "reachable s \<Longrightarrow> reachable (snd (updateTask i queueId now updates s))"
| r_delete: "reachable s \<Longrightarrow> reachable (snd (deleteTask i queueId now s))"
| r_sync: "reachable s \<Longrightarrow> sync cfg e s = Some run \<Longrightarrow> reachable (store run)"

section \<open>Concrete stores and remote behaviours\<close>

definition no_fields :: partial_task where
  "no_fields = \<lparr>p_title = None, p_description = None, p_completed = None,
                 p_updated_at = None, p_server_id = None, p_last_synced_at = None\<rparr>"

definition created_db :: db where
  \<comment> \<open>one task, created at time 1\<close>
  "created_db =
     snd (createTask ''t1'' ''q1'' 1 (no_fields\<lparr>p_title := Some ''Buy milk''\<rparr>) empty_db)"

definition edited_db :: db where
  \<comment> \<open>the task, edited at time 2: two queue entries\<close>
  "edited_db =
     snd (updateTask ''t1'' ''q2'' 2 (no_fields\<lparr>p_title := Some ''Local edit''\<rparr>) created_db)"

definition deleted_db :: db where
  \<comment> \<open>the task, soft-deleted at time 2\<close>
  "deleted_db = snd (deleteTask ''t1'' ''q2'' 2 created_db)"

definition deleted_row :: task where
  "deleted_row =
     \<lparr>id_t = ''t1'', title = ''Buy milk'', description = None, completed = False,
      created_at = 1, updated_at = 2, is_deleted = True, sync_status = Pending,
      server_id = None, last_synced_at = None\<rparr>"

definition created_entry :: sync_queue_item where
  "created_entry =
     \<lparr>id_q = ''q1'', task_id = ''t1'', operation = Create,
      data = \<lparr>id_p = ''t1'', title_p = ''Buy milk'', description_p = None,
              completed_p = False, created_at_p = 1, updated_at_p = 1,
              is_deleted_p = False\<rparr>,
      created_at_q = 1, retry_count = 0, error_message = None\<rparr>"

definition offline_env :: env where
  "offline_env = \<lparr>health = False, remote = (\<lambda>k batch. PostReturns None), clock = 5\<rparr>"

definition failing_env :: env where
  \<comment> \<open>every \<^verbatim>\<open>POST /batch\<close> fails in transport\<close>
  "failing_env =
     \<lparr>health = True,
      remote = (\<lambda>k batch. PostFails (JsError ''AxiosError'' ''Network Error'')),
      clock = 5\<rparr>"

definition success_item :: processed_item where
  "success_item =
     \<lparr>client_id = ''t1'', server_id_pi = Some ''srv-1'', status = StSuccess,
      resolved_data = None, error_pi = None\<rparr>"

definition conflict_item :: processed_item where
  "conflict_item =
     \<lparr>client_id = ''t1'', server_id_pi = Some ''srv-1'', status = StConflict,
      resolved_data =
        Some (no_fields\<lparr>p_title := Some ''Server title'', p_updated_at := Some 9\<rparr>),
      error_pi = None\<rparr>"

definition rejected_item :: processed_item where
  "rejected_item =
     \<lparr>client_id = ''t1'', server_id_pi = None, status = StError,
      resolved_data = None, error_pi = Some ''rejected''\<rparr>"

definition success_env :: env where
  "success_env =
     \<lparr>health = True, remote = (\<lambda>k batch. PostReturns (Some [success_item])), clock = 5\<rparr>"

definition conflict_env :: env where
  "conflict_env =
     \<lparr>health = True, remote = (\<lambda>k batch. PostReturns (Some [conflict_item])), clock = 5\<rparr>"

definition split_env :: env where
  \<comment> \<open>the remote accepts the first entry of the task and rejects the second\<close>
  "split_env =
     \<lparr>health = True,
      remote = (\<lambda>k batch. PostReturns (Some [success_item, rejected_item])),
      clock = 7\<rparr>"

fun sync_times :: "nat \<Rightarrow> config \<Rightarrow> env \<Rightarrow> db \<Rightarrow> db option" where
  "sync_times 0 cfg e s = Some s"
| "sync_times (Suc n) cfg e s =
     (case sync cfg e s of None \<Rightarrow> None | Some run \<Rightarrow> sync_times n cfg e (store run))"

definition retried_entry :: sync_queue_item where
  \<comment> \<open>the entry of the task after two failed runs\<close>
  "retried_entry = created_entry\<lparr>retry_count := 2, error_message := Some ''Network Error''\<rparr>"

definition retried_db :: db where
  "retried_db = created_db\<lparr>sync_queue := [retried_entry]\<rparr>"

definition edited_entry :: sync_queue_item where
  "edited_entry =
     \<lparr>id_q = ''q2'', task_id = ''t1'', operation = Update,
      data = \<lparr>id_p = ''t1'', title_p = ''Local edit'', description_p = None,
              completed_p = False, created_at_p = 1, updated_at_p = 2,
              is_deleted_p = False\<rparr>,
      created_at_q = 2, retry_count = 0, error_message = None\<rparr>"

definition stuck_db :: db where
  \<comment> \<open>the created task after three runs that failed in transport\<close>
  "stuck_db =
     \<lparr>tasks = [\<lparr>id_t = ''t1'', title = ''Buy milk'', description = None, completed = False,
                created_at = 1, updated_at = 1, is_deleted = False, sync_status = Error,
                server_id = None, last_synced_at = None\<rparr>],
      sync_queue = [created_entry\<lparr>retry_count := 3, error_message := Some ''Network Error''\<rparr>]\<rparr>"

definition twice_failed_db :: db where
  \<comment> \<open>the edited task after two runs that failed in transport\<close>
  "twice_failed_db =
     edited_db\<lparr>sync_queue :=
       map (\<lambda>q. q\<lparr>retry_count := 2, error_message := Some ''Network Error''\<rparr>)
         (sync_queue edited_db)\<rparr>"

definition stale_error_db :: db where
  "stale_error_db =
     \<lparr>tasks = [\<lparr>id_t = ''t1'', title = ''Local edit'', description = None, completed = False,
                created_at = 1, updated_at = 2, is_deleted = False, sync_status = Error,
                server_id = Some ''srv-1'', last_synced_at = Some 7\<rparr>],
      sync_queue = []\<rparr>"

definition one_by_one :: config where
  "one_by_one = \<lparr>batchSize = 1, maxRetries = 3\<rparr>"

definition blank_title_body :: put_body where
  "blank_title_body = \<lparr>b_title = Some (JStr ''   ''), b_description = None, b_completed = None\<rparr>"

definition padded_title_body :: put_body where
  "padded_title_body =
     \<lparr>b_title = Some (JStr '' Buy oat milk ''), b_description = None, b_completed = None\<rparr>"

definition blank_title_row :: task where
  "blank_title_row =
     \<lparr>id_t = ''t1'', title = [], description = None, completed = False,
      created_at = 1, updated_at = 2, is_deleted = False, sync_status = Pending,
      server_id = None, last_synced_at = None\<rparr>"

text \<open>
  The invariant of the two tables that every operation keeps: a pending record has an
  entry in the queue, a synced record has none.
\<close>

definition queue_inv :: "db \<Rightarrow> bool" where
  "queue_inv s \<longleftrightarrow>
     (\<forall>r\<in>set (tasks s).
        (sync_status r = Pending \<longrightarrow> (\<exists>q\<in>set (sync_queue s). task_id q = id_t r))
      \<and> (sync_status r = Synced \<longrightarrow> (\<forall>q\<in>set (sync_queue s). task_id q \<noteq> id_t r)))"

section \<open>The route that deletes a task\<close>

definition deleteRoute :: "string \<Rightarrow> string \<Rightarrow> timestamp \<Rightarrow> db \<Rightarrow> response \<times> db" where
  \<comment> \<open>\<^verbatim>\<open>router.delete('/:id', ...)\<close>\<close>
  "deleteRoute i queueId now s =
     (case deleteTask i queueId now s of
        (False, s') \<Rightarrow> (Res 404 ''Task not found or already deleted'', s')
      | (True, s') \<Rightarrow> (Res 200 ''Task soft-deleted'', s'))"

section \<open>Notions used to state what a run does to one record\<close>

definition rows_with_id :: "string \<Rightarrow> db \<Rightarrow> task list" where
  "rows_with_id i s = filter (\<lambda>r. id_t r = i) (tasks s)"

definition entries_of :: "string \<Rightarrow> db \<Rightarrow> sync_queue_item list" where
  "entries_of i s = filter (\<lambda>q. task_id q = i) (sync_queue s)"

definition synced_row :: "string option \<Rightarrow> timestamp \<Rightarrow> task \<Rightarrow> task" where
  "synced_row sid now r = r\<lparr>sync_status := Synced, server_id := sid, last_synced_at := Some now\<rparr>"

definition rows_agree :: "string \<Rightarrow> db \<Rightarrow> db \<Rightarrow> bool" where
  \<comment> \<open>the rows of id \<open>i\<close> differ at most in the three columns \<^verbatim>\<open>updateSyncStatus\<close> writes\<close>
  "rows_agree i s s' \<longleftrightarrow>
     map (synced_row None 0) (rows_with_id i s') = map (synced_row None 0) (rows_with_id i s)"

definition settled :: "string \<Rightarrow> string option \<Rightarrow> timestamp \<Rightarrow> db \<Rightarrow> db \<Rightarrow> bool" where
  "settled i sid now s s' \<longleftrightarrow>
     rows_with_id i s' = map (synced_row sid now) (rows_with_id i s) \<and> entries_of i s' = []"

definition leaves_alone :: "string \<Rightarrow> sync_queue_item list \<Rightarrow> batch_outcome \<Rightarrow> bool" where
  \<comment> \<open>the outcome of posting a batch makes \<^verbatim>\<open>sync\<close> handle nothing for record id \<open>i\<close>:
      no response item has it as \<^verbatim>\<open>client_id\<close>, and a batch that fails holds no entry of it\<close>
  "leaves_alone i batch out =
     (case out of
        PostFails err \<Rightarrow> i \<notin> set (map task_id batch)
      | PostReturns None \<Rightarrow> True
      | PostReturns (Some pis) \<Rightarrow> i \<notin> set (map client_id pis))"

definition stamped_item :: processed_item where
  \<comment> \<open>a success item whose \<^verbatim>\<open>resolved_data\<close> carries a server id and a time of its own\<close>
  "stamped_item =
     \<lparr>client_id = ''t1'', server_id_pi = Some ''srv-1'', status = StSuccess,
      resolved_data =
        Some (no_fields\<lparr>p_server_id := Some (Some ''srv-2''), p_last_synced_at := Some 99\<rparr>),
      error_pi = None\<rparr>"

definition stamped_env :: env where
  "stamped_env =
     \<lparr>health = True, remote = (\<lambda>k batch. PostReturns (Some [stamped_item])), clock = 5\<rparr>"

definition twin_item :: processed_item where
  \<comment> \<open>a second success item for the same record, with a server id of its own\<close>
  "twin_item =
     \<lparr>client_id = ''t1'', server_id_pi = Some ''srv-9'', status = StSuccess,
      resolved_data = None, error_pi = None\<rparr>"

definition twin_env :: env where
  \<comment> \<open>the remote answers each of the two entries of the task with a success item\<close>
  "twin_env =
     \<lparr>health = True, remote = (\<lambda>k batch. PostReturns (Some [success_item, twin_item])),
      clock = 5\<rparr>"

definition stamped_run :: sync_run where
  "stamped_run =
     \<lparr>store = \<lparr>tasks =
         [\<lparr>id_t = ''t1'', title = ''Buy milk'', description = None, completed = False,
           created_at = 1, updated_at = 1, is_deleted = False, sync_status = Synced,
           server_id = Some ''srv-2'', last_synced_at = Some 5\<rparr>],
         sync_queue = []\<rparr>,
      result = \<lparr>success = True, synced_items = 1, failed_items = 0, errors = []\<rparr>,
      posted = [[created_entry]]\<rparr>"

section \<open>Evaluating the concrete stores\<close>

lemmas store_ops = select_task_by_id_def insert_task_def update_tasks_where_id_def
  insert_sync_queue_def update_sync_queue_where_id_def delete_sync_queue_where_task_id_def
  select_sync_queue_ordered_def Let_def

lemma created_db_eq:
  "created_db =
     \<lparr>tasks = [\<lparr>id_t = ''t1'', title = ''Buy milk'', description = None, completed = False,
                created_at = 1, updated_at = 1, is_deleted = False, sync_status = Pending,
                server_id = None, last_synced_at = None\<rparr>],
      sync_queue = [created_entry]\<rparr>"
  by (simp add: created_db_def createTask_def no_fields_def empty_db_def store_ops trim_def
      is_ws_def created_entry_def)

lemma deleted_db_eq:
  "deleted_db =
     \<lparr>tasks = [deleted_row],
      sync_queue = [created_entry,
        \<lparr>id_q = ''q2'', task_id = ''t1'', operation = Delete,
         data = \<lparr>id_p = ''t1'', title_p = ''Buy milk'', description_p = None,
                 completed_p = False, created_at_p = 1, updated_at_p = 2,
                 is_deleted_p = True\<rparr>,
         created_at_q = 2, retry_count = 0, error_message = None\<rparr>]\<rparr>"
  by (simp add: deleted_db_def created_db_eq deleteTask_def store_ops deleted_row_def)

lemma edited_db_eq:
  "edited_db =
     \<lparr>tasks = [\<lparr>id_t = ''t1'', title = ''Local edit'', description = None, completed = False,
                created_at = 1, updated_at = 2, is_deleted = False, sync_status = Pending,
                server_id = None, last_synced_at = None\<rparr>],
      sync_queue = [created_entry, edited_entry]\<rparr>"
  by (simp add: edited_db_def created_db_eq updateTask_def store_ops no_fields_def trim_def
      is_ws_def edited_entry_def)

lemma find_by_id_distinct:
  "distinct (map id_t xs) \<Longrightarrow> r \<in> set xs \<Longrightarrow> find (\<lambda>x. id_t x = id_t r) xs = Some r"
  by (induction xs) (auto simp: image_iff)

lemma select_task_by_id_row:
  "distinct (map id_t (tasks s)) \<Longrightarrow> r \<in> set (tasks s) \<Longrightarrow> select_task_by_id (id_t r) s = Some r"
  by (simp add: select_task_by_id_def find_by_id_distinct)

text \<open>
  Claim C10. A soft-deleted record is still a row of the store, and the read operations
  hide it: \<^verbatim>\<open>getTask\<close> returns \<^verbatim>\<open>null\<close> for its id, and the result of
  \<^verbatim>\<open>getAllTasks\<close> does not contain it. Ids are the primary key of the table.
\<close>

theorem soft_deleted_hidden:
  assumes "distinct (map id_t (tasks s))" and "r \<in> set (tasks s)" and "is_deleted r"
  shows "select_task_by_id (id_t r) s = Some r \<and> getTask (id_t r) s = None
           \<and> r \<notin> set (getAllTasks s)"
  using assms by (simp add: getTask_def getAllTasks_def select_task_by_id_row)

theorem soft_deleted_hidden_witness:
  "distinct (map id_t (tasks deleted_db)) \<and> deleted_row \<in> set (tasks deleted_db)
     \<and> is_deleted deleted_row
     \<and> select_task_by_id ''t1'' deleted_db = Some deleted_row
     \<and> getTask ''t1'' deleted_db = None \<and> deleted_row \<notin> set (getAllTasks deleted_db)"
proof -
  have h1: "distinct (map id_t (tasks deleted_db))" by (simp add: deleted_db_eq)
  have h2: "deleted_row \<in> set (tasks deleted_db)" by (simp add: deleted_db_eq)
  have h3: "is_deleted deleted_row" by (simp add: deleted_row_def)
  have i: "id_t deleted_row = ''t1''" by (simp add: deleted_row_def)
  show ?thesis using h1 h2 h3 soft_deleted_hidden[OF h1 h2 h3] by (simp add: i)
qed

text \<open>
  Claim C7, as amended. For a record with \<^verbatim>\<open>is_deleted = true\<close>, \<^verbatim>\<open>updateTask\<close> and
  \<^verbatim>\<open>deleteTask\<close> fail with \<^verbatim>\<open>null\<close> and \<^verbatim>\<open>false\<close>, the results they give for an id
  that no record has, and leave the database as it was: no field of the record changes
  and no queue entry is added.
\<close>

theorem deleted_record_immutable:
  assumes "distinct (map id_t (tasks s))" and "r \<in> set (tasks s)" and "is_deleted r"
  shows "updateTask (id_t r) queueId now updates s = (None, s)
           \<and> deleteTask (id_t r) queueId now s = (False, s)
           \<and> (select_task_by_id j s = None \<longrightarrow>
                 updateTask j queueId now updates s = (None, s)
               \<and> deleteTask j queueId now s = (False, s))"
  using assms by (simp add: updateTask_def deleteTask_def select_task_by_id_row)

theorem deleted_record_immutable_witness:
  "distinct (map id_t (tasks deleted_db)) \<and> deleted_row \<in> set (tasks deleted_db)
     \<and> is_deleted deleted_row
     \<and> updateTask ''t1'' ''q3'' 3 (no_fields\<lparr>p_title := Some ''Again''\<rparr>) deleted_db
         = (None, deleted_db)
     \<and> deleteTask ''t1'' ''q3'' 3 deleted_db = (False, deleted_db)
     \<and> select_task_by_id ''t9'' deleted_db = None
     \<and> updateTask ''t9'' ''q3'' 3 (no_fields\<lparr>p_title := Some ''Again''\<rparr>) deleted_db
         = (None, deleted_db)
     \<and> deleteTask ''t9'' ''q3'' 3 deleted_db = (False, deleted_db)"
proof -
  have h1: "distinct (map id_t (tasks deleted_db))" by (simp add: deleted_db_eq)
  have h2: "deleted_row \<in> set (tasks deleted_db)" by (simp add: deleted_db_eq)
  have h3: "is_deleted deleted_row" by (simp add: deleted_row_def)
  have h4: "select_task_by_id ''t9'' deleted_db = None"
    by (simp add: deleted_db_eq deleted_row_def select_task_by_id_def)
  have i: "id_t deleted_row = ''t1''" by (simp add: deleted_row_def)
  show ?thesis
    using h1 h2 h3 h4
      deleted_record_immutable[OF h1 h2 h3, of "''q3''" 3 "no_fields\<lparr>p_title := Some ''Again''\<rparr>"
        "''t9''"]
    by (simp add: i)
qed

text \<open>
  Claim C7 as stated fails: the code has no result of its own for a deleted record. On a
  store whose only record is soft-deleted, the two calls return for that record what they
  return for an id no record has, and both routes answer 404 in both cases.
\<close>

theorem deleted_fails_like_missing:
  "select_task_by_id ''t1'' deleted_db = Some deleted_row
   \<and> is_deleted deleted_row
   \<and> select_task_by_id ''t9'' deleted_db = None
   \<and> updateTask ''t1'' ''q3'' 3 (no_fields\<lparr>p_title := Some ''Again''\<rparr>) deleted_db
       = (None, deleted_db)
   \<and> updateTask ''t9'' ''q3'' 3 (no_fields\<lparr>p_title := Some ''Again''\<rparr>) deleted_db
       = (None, deleted_db)
   \<and> deleteTask ''t1'' ''q3'' 3 deleted_db = (False, deleted_db)
   \<and> deleteTask ''t9'' ''q3'' 3 deleted_db = (False, deleted_db)
   \<and> putTask ''t1'' ''q3'' 3 padded_title_body deleted_db
       = (Res 404 ''Task not found'', deleted_db)
   \<and> putTask ''t9'' ''q3'' 3 padded_title_body deleted_db
       = (Res 404 ''Task not found'', deleted_db)
   \<and> deleteRoute ''t1'' ''q3'' 3 deleted_db
       = (Res 404 ''Task not found or already deleted'', deleted_db)
   \<and> deleteRoute ''t9'' ''q3'' 3 deleted_db
       = (Res 404 ''Task not found or already deleted'', deleted_db)"
  by (simp add: deleted_db_eq deleted_row_def updateTask_def deleteTask_def putTask_def
      deleteRoute_def rejected_title_def padded_title_body_def trim_def is_ws_def
      select_task_by_id_def)

text \<open>
  Claim C5. When \<^verbatim>\<open>checkConnectivity\<close> reports no connection, \<^verbatim>\<open>sync\<close> returns at
  once: \<^verbatim>\<open>success\<close> is false, no item is counted, the only error is the synthetic one
  with operation \<^verbatim>\<open>sync\<close> and text \<^verbatim>\<open>Offline\<close>, nothing is posted, and the database
  is the one it was called with, whatever it holds.
\<close>

theorem offline_sync_touches_nothing:
  assumes "\<not> checkConnectivity e"
  shows "sync cfg e s =
           Some \<lparr>store = s,
                 result = \<lparr>success = False, synced_items = 0, failed_items = 0,
                           errors = [\<lparr>task_id_e = [], operation_e = ''sync'',
                                      error_e = ''Offline'', timestamp_e = clock e\<rparr>]\<rparr>,
                 posted = []\<rparr>"
  using assms by (simp add: sync_def empty_result_def)

theorem offline_sync_touches_nothing_witness:
  "\<not> checkConnectivity offline_env
   \<and> sync default_config offline_env created_db =
       Some \<lparr>store = created_db,
             result = \<lparr>success = False, synced_items = 0, failed_items = 0,
                       errors = [\<lparr>task_id_e = [], operation_e = ''sync'',
                                  error_e = ''Offline'', timestamp_e = 5\<rparr>]\<rparr>,
             posted = []\<rparr>
   \<and> length (sync_queue created_db) = 1"
proof -
  have h: "\<not> checkConnectivity offline_env"
    by (simp add: checkConnectivity_def offline_env_def)
  have c: "clock offline_env = 5" by (simp add: offline_env_def)
  show ?thesis
    using h offline_sync_touches_nothing[OF h, of default_config created_db]
    by (simp add: c created_db_eq)
qed

text \<open>
  Claim C3. Retry bookkeeping on an entry of the queue: when the incremented
  \<^verbatim>\<open>retry_count\<close> reaches \<^verbatim>\<open>maxRetries\<close>, the records of the entry's task get
  \<^verbatim>\<open>sync_status = 'error'\<close>; below the maximum no record changes, so a pending record
  stays pending. In both cases the entry stays in the queue, with the new count and the
  error message, and no row of the queue is removed.
\<close>

theorem retry_bookkeeping:
  assumes "item \<in> set (sync_queue s)"
  shows "(maxRetries cfg \<le> retry_count item + 1 \<longrightarrow>
            tasks (handleSyncError cfg item err s) =
              map (\<lambda>r. if id_t r = task_id item then r\<lparr>sync_status := Error\<rparr> else r) (tasks s))
         \<and> (retry_count item + 1 < maxRetries cfg \<longrightarrow>
              tasks (handleSyncError cfg item err s) = tasks s)
         \<and> item\<lparr>retry_count := retry_count item + 1, error_message := Some (errText err)\<rparr>
              \<in> set (sync_queue (handleSyncError cfg item err s))
         \<and> map id_q (sync_queue (handleSyncError cfg item err s)) = map id_q (sync_queue s)"
  using assms
  by (auto simp: handleSyncError_def update_sync_queue_where_id_def update_tasks_where_id_def
      Let_def image_iff intro!: bexI[of _ item])

theorem retry_bookkeeping_witness:
  "retried_entry \<in> set (sync_queue retried_db)
   \<and> maxRetries default_config \<le> retry_count retried_entry + 1
   \<and> map sync_status
        (tasks (handleSyncError default_config retried_entry
                  (JsError ''AxiosError'' ''Network Error'') retried_db)) = [Error]
   \<and> retried_entry\<lparr>retry_count := 3\<rparr>
        \<in> set (sync_queue (handleSyncError default_config retried_entry
                  (JsError ''AxiosError'' ''Network Error'') retried_db))
   \<and> map id_q (sync_queue (handleSyncError default_config retried_entry
                  (JsError ''AxiosError'' ''Network Error'') retried_db)) = [''q1'']
   \<and> created_entry \<in> set (sync_queue created_db)
   \<and> retry_count created_entry + 1 < maxRetries default_config
   \<and> map sync_status
        (tasks (handleSyncError default_config created_entry
                  (JsError ''AxiosError'' ''Network Error'') created_db)) = [Pending]
   \<and> created_entry\<lparr>retry_count := 1, error_message := Some ''Network Error''\<rparr>
        \<in> set (sync_queue (handleSyncError default_config created_entry
                  (JsError ''AxiosError'' ''Network Error'') created_db))"
proof -
  let ?e = "JsError ''AxiosError'' ''Network Error''"
  have h1: "created_entry \<in> set (sync_queue created_db)" by (simp add: created_db_eq)
  have h2: "retried_entry \<in> set (sync_queue retried_db)" by (simp add: retried_db_def)
  have m: "maxRetries default_config = 3"
    by (simp add: default_config_def DEFAULT_RETRIES_def)
  have r: "retry_count created_entry = 0" "retry_count retried_entry = 2"
    "task_id retried_entry = ''t1''"
    "retried_entry\<lparr>retry_count := 3, error_message := Some ''Network Error''\<rparr>
       = retried_entry\<lparr>retry_count := 3\<rparr>"
    by (simp_all add: created_entry_def retried_entry_def)
  have t: "tasks retried_db = tasks created_db" "map id_q (sync_queue retried_db) = [''q1'']"
    by (simp_all add: retried_db_def retried_entry_def created_entry_def)
  show ?thesis
    using h1 h2 retry_bookkeeping[OF h1, of default_config ?e]
      retry_bookkeeping[OF h2, of default_config ?e]
    by (simp add: m r t created_db_eq)
qed

section \<open>The invariant of the queue\<close>

lemma queue_inv_empty: "queue_inv empty_db"
  by (simp add: queue_inv_def empty_db_def)

lemma queue_inv_mutate:
  assumes "queue_inv s" and "\<And>r. sync_status (f r) = Pending" and "\<And>r. id_t (f r) = id_t r"
    and "task_id q = i"
  shows "queue_inv (s\<lparr>tasks := map (\<lambda>r. if id_t r = i then f r else r) (tasks s),
                    sync_queue := sync_queue s @ [q]\<rparr>)"
  unfolding queue_inv_def
proof (intro ballI conjI impI)
  fix r' assume "r' \<in> set (tasks (s\<lparr>tasks := map (\<lambda>r. if id_t r = i then f r else r) (tasks s),
                    sync_queue := sync_queue s @ [q]\<rparr>))"
  then obtain r where r: "r \<in> set (tasks s)" "r' = (if id_t r = i then f r else r)"
    by auto
  {
    assume p: "sync_status r' = Pending"
    show "\<exists>q'\<in>set (sync_queue (s\<lparr>tasks := map (\<lambda>r. if id_t r = i then f r else r) (tasks s),
                    sync_queue := sync_queue s @ [q]\<rparr>)). task_id q' = id_t r'"
    proof (cases "id_t r = i")
      case True
      with r assms(3,4) show ?thesis by simp
    next
      case False
      with r p assms(1) obtain q0 where "q0 \<in> set (sync_queue s)" "task_id q0 = id_t r"
        unfolding queue_inv_def by auto
      with False r show ?thesis by auto
    qed
  }
  {
    assume p: "sync_status r' = Synced"
    fix q' assume q': "q' \<in> set (sync_queue (s\<lparr>tasks := map (\<lambda>r. if id_t r = i then f r else r) (tasks s),
                    sync_queue := sync_queue s @ [q]\<rparr>))"
    show "task_id q' \<noteq> id_t r'"
    proof (cases "id_t r = i")
      case True
      with r p assms(2) show ?thesis by simp
    next
      case False
      with r p assms(1) have "\<forall>q0\<in>set (sync_queue s). task_id q0 \<noteq> id_t r"
        unfolding queue_inv_def by auto
      with False r q' assms(4) show ?thesis by auto
    qed
  }
qed

lemma queue_inv_insert:
  assumes "queue_inv s" and "id_t r \<notin> id_t ` set (tasks s)" and "sync_status r = Pending"
    and "task_id q = id_t r"
  shows "queue_inv (s\<lparr>tasks := tasks s @ [r], sync_queue := sync_queue s @ [q]\<rparr>)"
  using assms unfolding queue_inv_def by (auto simp: image_iff)

lemma queue_inv_createTask:
  assumes "queue_inv s" and "i \<notin> set (map id_t (tasks s))"
  shows "queue_inv (snd (createTask i queueId now taskData s))"
proof (cases "trim (case p_title taskData of None \<Rightarrow> [] | Some t \<Rightarrow> t) = []")
  case True
  with assms(1) show ?thesis by (simp add: createTask_def)
next
  case False
  with assms show ?thesis
    by (simp add: createTask_def insert_task_def insert_sync_queue_def Let_def queue_inv_insert)
qed

lemma queue_inv_updateTask:
  assumes "queue_inv s"
  shows "queue_inv (snd (updateTask i queueId now updates s))"
proof (cases "select_task_by_id i s")
  case None
  with assms show ?thesis by (simp add: updateTask_def)
next
  case (Some existing)
  show ?thesis
  proof (cases "is_deleted existing")
    case True
    with Some assms show ?thesis by (simp add: updateTask_def)
  next
    case False
    with Some show ?thesis
      by (simp add: updateTask_def update_tasks_where_id_def insert_sync_queue_def Let_def
          queue_inv_mutate[OF assms])
  qed
qed

lemma queue_inv_deleteTask:
  assumes "queue_inv s"
  shows "queue_inv (snd (deleteTask i queueId now s))"
proof (cases "select_task_by_id i s")
  case None
  with assms show ?thesis by (simp add: deleteTask_def)
next
  case (Some existing)
  show ?thesis
  proof (cases "is_deleted existing")
    case True
    with Some assms show ?thesis by (simp add: deleteTask_def)
  next
    case False
    with Some show ?thesis
      by (simp add: deleteTask_def update_tasks_where_id_def insert_sync_queue_def Let_def
          queue_inv_mutate[OF assms])
  qed
qed

lemma queue_inv_updateSyncStatus:
  assumes "queue_inv s"
  shows "queue_inv (updateSyncStatus i Synced sd now s)"
proof -
  have eq: "\<exists>f. (\<forall>r. sync_status (f r) = Synced \<and> id_t (f r) = id_t r) \<and>
      updateSyncStatus i Synced sd now s =
        \<lparr>tasks = map (\<lambda>r. if id_t r = i then f r else r) (tasks s),
         sync_queue = filter (\<lambda>q. task_id q \<noteq> i) (sync_queue s)\<rparr>"
    by (rule exI[of _ "\<lambda>r. r\<lparr>sync_status := Synced,
          server_id := (case sd of None \<Rightarrow> None
             | Some d \<Rightarrow> (case p_server_id d of Some (Some x) \<Rightarrow> Some x | _ \<Rightarrow> None)),
          last_synced_at := Some now\<rparr>"])
      (simp add: updateSyncStatus_def update_tasks_where_id_def
        delete_sync_queue_where_task_id_def)
  then obtain f where f: "\<And>r. sync_status (f r) = Synced" "\<And>r. id_t (f r) = id_t r"
    and u: "updateSyncStatus i Synced sd now s =
        \<lparr>tasks = map (\<lambda>r. if id_t r = i then f r else r) (tasks s),
         sync_queue = filter (\<lambda>q. task_id q \<noteq> i) (sync_queue s)\<rparr>"
    by blast
  show ?thesis
    unfolding u queue_inv_def
  proof (intro ballI conjI impI)
    fix r' assume "r' \<in> set (tasks \<lparr>tasks = map (\<lambda>r. if id_t r = i then f r else r) (tasks s),
         sync_queue = filter (\<lambda>q. task_id q \<noteq> i) (sync_queue s)\<rparr>)"
    then obtain r where r: "r \<in> set (tasks s)" "r' = (if id_t r = i then f r else r)"
      by auto
    {
      assume p: "sync_status r' = Pending"
      with r f have ne: "id_t r \<noteq> i" "r' = r" by (auto split: if_splits)
      with r p assms obtain q0 where "q0 \<in> set (sync_queue s)" "task_id q0 = id_t r"
        unfolding queue_inv_def by auto
      with ne show "\<exists>q\<in>set (sync_queue \<lparr>tasks = map (\<lambda>r. if id_t r = i then f r else r) (tasks s),
         sync_queue = filter (\<lambda>q. task_id q \<noteq> i) (sync_queue s)\<rparr>). task_id q = id_t r'"
        by auto
    }
    {
      assume p: "sync_status r' = Synced"
      fix q assume q: "q \<in> set (sync_queue \<lparr>tasks = map (\<lambda>r. if id_t r = i then f r else r) (tasks s),
         sync_queue = filter (\<lambda>q. task_id q \<noteq> i) (sync_queue s)\<rparr>)"
      show "task_id q \<noteq> id_t r'"
      proof (cases "id_t r = i")
        case True
        with r f q show ?thesis by auto
      next
        case False
        with r p assms have "\<forall>q0\<in>set (sync_queue s). task_id q0 \<noteq> id_t r"
          unfolding queue_inv_def by auto
        with False r q show ?thesis by auto
      qed
    }
  qed
qed

lemma queue_inv_alt:
  "queue_inv s \<longleftrightarrow> (\<forall>r\<in>set (tasks s).
        (sync_status r = Pending \<longrightarrow> id_t r \<in> set (map task_id (sync_queue s)))
      \<and> (sync_status r = Synced \<longrightarrow> id_t r \<notin> set (map task_id (sync_queue s))))"
  unfolding queue_inv_def set_map image_iff by (intro ball_cong refl) metis

lemma queue_inv_step:
  assumes "queue_inv s"
    and "map task_id (sync_queue s') = map task_id (sync_queue s)"
    and "\<forall>r'\<in>set (tasks s'). sync_status r' = Error \<or> r' \<in> set (tasks s)"
  shows "queue_inv s'"
  unfolding queue_inv_alt assms(2)
proof (intro ballI)
  fix r' assume "r' \<in> set (tasks s')"
  with assms(3) have "sync_status r' = Error \<or> r' \<in> set (tasks s)" by blast
  then show "(sync_status r' = Pending \<longrightarrow> id_t r' \<in> set (map task_id (sync_queue s)))
      \<and> (sync_status r' = Synced \<longrightarrow> id_t r' \<notin> set (map task_id (sync_queue s)))"
  proof
    assume "sync_status r' = Error"
    then show ?thesis by simp
  next
    assume "r' \<in> set (tasks s)"
    with assms(1) show ?thesis unfolding queue_inv_alt by blast
  qed
qed

lemma handleSyncError_task_ids:
  "map task_id (sync_queue (handleSyncError cfg item err s)) = map task_id (sync_queue s)"
  by (simp add: handleSyncError_def update_tasks_where_id_def update_sync_queue_where_id_def
      Let_def comp_def)

lemma handleSyncError_tasks:
  "r' \<in> set (tasks (handleSyncError cfg item err s)) \<Longrightarrow>
     sync_status r' = Error \<or> r' \<in> set (tasks s)"
  by (auto simp: handleSyncError_def update_tasks_where_id_def update_sync_queue_where_id_def
      Let_def split: if_splits)

lemma queue_inv_handleSyncError:
  "queue_inv s \<Longrightarrow> queue_inv (handleSyncError cfg item err s)"
  by (rule queue_inv_step[where s = s]) (auto simp: handleSyncError_task_ids dest: handleSyncError_tasks)

lemma queue_inv_handleProcessedItem:
  assumes "queue_inv (fst sr)"
  shows "queue_inv (fst (handleProcessedItem cfg now batch pi sr))"
proof (cases sr)
  case (Pair s res)
  with assms have s: "queue_inv s" by simp
  show ?thesis
  proof (cases "status pi")
    case StSuccess
    with Pair s show ?thesis
      by (simp add: handleProcessedItem_def queue_inv_updateSyncStatus)
  next
    case StConflict
    with Pair s show ?thesis
      by (simp add: handleProcessedItem_def queue_inv_updateSyncStatus)
  next
    case StError
    with Pair s show ?thesis
      by (cases "find (\<lambda>it. task_id it = client_id pi) batch")
        (simp_all add: handleProcessedItem_def Let_def queue_inv_handleSyncError)
  qed
qed

lemma queue_inv_processItems:
  "queue_inv (fst sr) \<Longrightarrow> queue_inv (fst (processItems cfg now batch pis sr))"
  by (induction pis arbitrary: sr) (simp_all add: queue_inv_handleProcessedItem)

lemma queue_inv_failBatch:
  "queue_inv (fst sr) \<Longrightarrow> queue_inv (fst (failBatch cfg now err items sr))"
  by (induction items arbitrary: sr)
    (simp_all add: failItem_def split_beta queue_inv_handleSyncError)

lemma queue_inv_batchStep:
  "queue_inv (store run) \<Longrightarrow> queue_inv (store (batchStep cfg e batch run))"
  by (simp add: batchStep_def Let_def queue_inv_processItems queue_inv_failBatch
      split: batch_outcome.splits option.splits)

lemma syncLoop_invariant:
  assumes step: "\<And>cfg e batch run. P (store run) \<Longrightarrow> P (store (batchStep cfg e batch run))"
  shows "syncLoop cfg e items i run = Some run' \<Longrightarrow> P (store run) \<Longrightarrow> P (store run')"
proof (induction cfg e items i run rule: syncLoop.induct)
  case (1 cfg e items i run)
  show ?case
  proof (cases "i < int (length items)")
    case True
    with "1.prems" have pos: "\<not> batchSize cfg \<le> 0"
      by (auto simp: syncLoop.simps[of cfg e items i run] split: if_splits)
    with True "1.prems" have
      "syncLoop cfg e items (i + batchSize cfg)
         (batchStep cfg e (slice items i (i + batchSize cfg)) run) = Some run'"
      by (simp add: syncLoop.simps[of cfg e items i run])
    from "1.IH"[OF True pos this step[OF "1.prems"(2)]] show ?thesis .
  next
    case False
    with "1.prems" show ?thesis by (simp add: syncLoop.simps[of cfg e items i run])
  qed
qed

lemma sync_invariant:
  assumes "\<And>cfg e batch run. P (store run) \<Longrightarrow> P (store (batchStep cfg e batch run))"
    and "sync cfg e s = Some run" and "P s"
  shows "P (store run)"
proof (cases "\<not> checkConnectivity e \<or> fetchSyncQueueItems s = []")
  case True
  with assms(2,3) show ?thesis by (auto simp: sync_def Let_def split: if_splits)
next
  case False
  with assms(2) have "syncLoop cfg e (fetchSyncQueueItems s) 0
      \<lparr>store = s, result = empty_result, posted = []\<rparr> = Some run"
    by (simp add: sync_def Let_def)
  from syncLoop_invariant[where P = P, OF assms(1) this] assms(3) show ?thesis by simp
qed

lemma queue_inv_sync:
  "sync cfg e s = Some run \<Longrightarrow> queue_inv s \<Longrightarrow> queue_inv (store run)"
  by (rule sync_invariant[where P = queue_inv]) (simp_all add: queue_inv_batchStep)

lemma reachable_queue_inv: "reachable s \<Longrightarrow> queue_inv s"
  by (induction rule: reachable.induct)
    (simp_all add: queue_inv_empty queue_inv_createTask queue_inv_updateTask
      queue_inv_deleteTask queue_inv_sync)

section \<open>What a run of sync keeps\<close>

lemma handleSyncError_ids: "map id_t (tasks (handleSyncError cfg item err s)) = map id_t (tasks s)"
  by (simp add: handleSyncError_def update_sync_queue_where_id_def update_tasks_where_id_def
      Let_def comp_def)

lemma updateSyncStatus_ids: "map id_t (tasks (updateSyncStatus i st sd now s)) = map id_t (tasks s)"
  by (simp add: updateSyncStatus_def update_tasks_where_id_def delete_sync_queue_where_task_id_def
      Let_def comp_def)

lemma handleSyncError_titles:
  "map title (tasks (handleSyncError cfg item err s)) = map title (tasks s)"
  by (simp add: handleSyncError_def update_sync_queue_where_id_def update_tasks_where_id_def
      Let_def comp_def)

lemma updateSyncStatus_titles:
  "map title (tasks (updateSyncStatus i st sd now s)) = map title (tasks s)"
  by (simp add: updateSyncStatus_def update_tasks_where_id_def delete_sync_queue_where_task_id_def
      Let_def comp_def)

text \<open>A property of the store that the two writers of the sync service keep is kept by a run.\<close>

lemma handleProcessedItem_keeps:
  assumes u: "\<And>i st sd now s. P s \<Longrightarrow> P (updateSyncStatus i st sd now s)"
    and h: "\<And>cfg item err s. P s \<Longrightarrow> P (handleSyncError cfg item err s)"
    and "P (fst sr)"
  shows "P (fst (handleProcessedItem cfg now batch pi sr))"
proof (cases sr)
  case (Pair s res)
  with assms(3) have s: "P s" by simp
  show ?thesis
  proof (cases "status pi")
    case StSuccess
    with Pair u[OF s] show ?thesis by (simp add: handleProcessedItem_def)
  next
    case StConflict
    with Pair u[OF s] show ?thesis by (simp add: handleProcessedItem_def)
  next
    case StError
    with Pair s h[OF s] show ?thesis
      by (cases "find (\<lambda>it. task_id it = client_id pi) batch")
        (simp_all add: handleProcessedItem_def Let_def)
  qed
qed

lemma batchStep_keeps:
  assumes u: "\<And>i st sd now s. P s \<Longrightarrow> P (updateSyncStatus i st sd now s)"
    and h: "\<And>cfg item err s. P s \<Longrightarrow> P (handleSyncError cfg item err s)"
    and "P (store run)"
  shows "P (store (batchStep cfg e batch run))"
proof -
  have pi: "P (fst (processItems cfg now batch pis sr))" if "P (fst sr)" for now pis sr
    using that
    by (induction pis arbitrary: sr) (simp_all add: handleProcessedItem_keeps[where P = P, OF u h])
  have fb: "P (fst (failBatch cfg now err items sr))" if "P (fst sr)" for now err items sr
    using that
    by (induction items arbitrary: sr) (simp_all add: failItem_def split_beta h)
  from assms(3) show ?thesis
    by (simp add: batchStep_def Let_def pi fb split: batch_outcome.splits option.splits)
qed

lemma sync_keeps:
  assumes u: "\<And>i st sd now s. P s \<Longrightarrow> P (updateSyncStatus i st sd now s)"
    and h: "\<And>cfg item err s. P s \<Longrightarrow> P (handleSyncError cfg item err s)"
    and "sync cfg e s = Some run" and "P s"
  shows "P (store run)"
  by (rule sync_invariant[where P = P, OF _ assms(3,4)]) (rule batchStep_keeps[where P = P, OF u h])

lemma sync_ids: "sync cfg e s = Some run \<Longrightarrow> map id_t (tasks (store run)) = map id_t (tasks s)"
  by (rule sync_keeps[where P = "\<lambda>x. map id_t (tasks x) = map id_t (tasks s)"])
    (simp_all add: updateSyncStatus_ids handleSyncError_ids)

lemma sync_titles: "sync cfg e s = Some run \<Longrightarrow> map title (tasks (store run)) = map title (tasks s)"
  by (rule sync_keeps[where P = "\<lambda>x. map title (tasks x) = map title (tasks s)"])
    (simp_all add: updateSyncStatus_titles handleSyncError_titles)

lemma updateTask_ids: "map id_t (tasks (snd (updateTask i queueId now updates s))) = map id_t (tasks s)"
  by (cases "select_task_by_id i s")
    (simp_all add: updateTask_def update_tasks_where_id_def insert_sync_queue_def Let_def comp_def)

lemma deleteTask_ids: "map id_t (tasks (snd (deleteTask i queueId now s))) = map id_t (tasks s)"
  by (cases "select_task_by_id i s")
    (simp_all add: deleteTask_def update_tasks_where_id_def insert_sync_queue_def Let_def comp_def)

lemma reachable_distinct_ids: "reachable s \<Longrightarrow> distinct (map id_t (tasks s))"
proof (induction rule: reachable.induct)
  case r_empty
  show ?case by (simp add: empty_db_def)
next
  case (r_create s i queueId now taskData)
  then show ?case
    by (simp add: createTask_def insert_task_def insert_sync_queue_def Let_def)
next
  case (r_update s i queueId now updates)
  then show ?case by (simp add: updateTask_ids)
next
  case (r_delete s i queueId now)
  then show ?case by (simp add: deleteTask_ids)
next
  case (r_sync s cfg e run)
  then show ?case by (simp add: sync_ids)
qed

lemma reachable_sync_times:
  "reachable s \<Longrightarrow> sync_times n cfg e s = Some t \<Longrightarrow> reachable t"
proof (induction n arbitrary: s)
  case 0
  then show ?case by simp
next
  case (Suc n)
  from Suc.prems(2) obtain run where r: "sync cfg e s = Some run"
    and t: "sync_times n cfg e (store run) = Some t"
    by (auto split: option.splits)
  from Suc.prems(1) r have "reachable (store run)" by (rule r_sync)
  from Suc.IH[OF this t] show ?case .
qed

section \<open>Batches\<close>

lemma batches_of_Nil [simp]: "batches_of n [] = []"
  by (simp add: batches_of.simps[of n "[]"])

lemma concat_batches_of: "0 < n \<Longrightarrow> concat (batches_of n xs) = xs"
proof (induction n xs rule: batches_of.induct)
  case (1 n xs)
  show ?case
  proof (cases "xs = []")
    case True
    then show ?thesis by simp
  next
    case False
    with "1.prems" "1.IH" show ?thesis
      by (simp add: batches_of.simps[of n xs])
  qed
qed

lemma batches_of_sizes:
  "b \<in> set (batches_of n xs) \<Longrightarrow> b \<noteq> [] \<and> length b \<le> n"
proof (induction n xs rule: batches_of.induct)
  case (1 n xs)
  then show ?case
    by (cases "n = 0 \<or> xs = []") (auto simp: batches_of.simps[of n xs])
qed

lemma batches_of_full:
  "Suc j < length (batches_of n xs) \<Longrightarrow> length (batches_of n xs ! j) = n"
proof (induction n xs arbitrary: j rule: batches_of.induct)
  case (1 n xs)
  show ?case
  proof (cases "n = 0 \<or> xs = []")
    case True
    with "1.prems" show ?thesis by (simp add: batches_of.simps[of n xs])
  next
    case False
    then have eq: "batches_of n xs = take n xs # batches_of n (drop n xs)"
      by (simp add: batches_of.simps[of n xs])
    show ?thesis
    proof (cases j)
      case 0
      have "drop n xs \<noteq> []"
      proof
        assume "drop n xs = []"
        then have "batches_of n (drop n xs) = []" by simp
        with eq "1.prems" show False by simp
      qed
      then have "n \<le> length xs" by simp
      with 0 eq show ?thesis by simp
    next
      case (Suc j')
      with "1.prems" eq have "Suc j' < length (batches_of n (drop n xs))" by simp
      from "1.IH"[OF False this] Suc eq show ?thesis by simp
    qed
  qed
qed

lemma syncLoop_posted:
  "0 < batchSize cfg \<Longrightarrow> 0 \<le> i \<Longrightarrow>
     \<exists>run'. syncLoop cfg e items i run = Some run'
        \<and> posted run' = posted run @ batches_of (nat (batchSize cfg)) (drop (nat i) items)"
proof (induction cfg e items i run rule: syncLoop.induct)
  case (1 cfg e items i run)
  show ?case
  proof (cases "i < int (length items)")
    case True
    let ?b = "slice items i (i + batchSize cfg)"
    have pos: "\<not> batchSize cfg \<le> 0" using "1.prems" by simp
    have "0 \<le> i + batchSize cfg" using "1.prems" by simp
    from "1.IH"[OF True pos "1.prems"(1) this]
    obtain run' where r: "syncLoop cfg e items (i + batchSize cfg) (batchStep cfg e ?b run) = Some run'"
      and p: "posted run' = posted (batchStep cfg e ?b run)
                @ batches_of (nat (batchSize cfg)) (drop (nat (i + batchSize cfg)) items)"
      by blast
    have nonempty: "drop (nat i) items \<noteq> []" using True "1.prems" by simp
    have d: "drop (nat (i + batchSize cfg)) items = drop (nat (batchSize cfg)) (drop (nat i) items)"
      using "1.prems" by (simp add: nat_add_distrib add.commute)
    have b: "?b = take (nat (batchSize cfg)) (drop (nat i) items)"
      by (simp add: slice_def)
    have "batches_of (nat (batchSize cfg)) (drop (nat i) items)
            = ?b # batches_of (nat (batchSize cfg)) (drop (nat (i + batchSize cfg)) items)"
      using nonempty "1.prems"(1) b d
      by (simp add: batches_of.simps[of "nat (batchSize cfg)" "drop (nat i) items"])
    with r p True pos show ?thesis
      by (simp add: syncLoop.simps[of cfg e items i run] batchStep_def Let_def)
  next
    case False
    then have "drop (nat i) items = []" using "1.prems" by simp
    with False show ?thesis
      by (simp add: syncLoop.simps[of cfg e items i run])
  qed
qed

lemma sync_posted:
  assumes "checkConnectivity e" and "0 < batchSize cfg"
  shows "\<exists>run. sync cfg e s = Some run
           \<and> posted run = batches_of (nat (batchSize cfg)) (fetchSyncQueueItems s)"
proof (cases "fetchSyncQueueItems s = []")
  case True
  with assms show ?thesis
    by (simp add: sync_def)
next
  case False
  from syncLoop_posted[OF assms(2), of 0 e "fetchSyncQueueItems s"
      "\<lparr>store = s, result = empty_result, posted = []\<rparr>"]
  show ?thesis using assms False by (simp add: sync_def Let_def)
qed

lemma sync_nonpositive:
  assumes "checkConnectivity e" and "batchSize cfg \<le> 0" and "sync cfg e s = Some run"
  shows "fetchSyncQueueItems s = [] \<and> posted run = []"
proof (cases "fetchSyncQueueItems s = []")
  case True
  with assms show ?thesis by (auto simp: sync_def)
next
  case False
  with assms show ?thesis
    by (simp add: sync_def Let_def
        syncLoop.simps[of cfg e "fetchSyncQueueItems s" 0])
qed

lemma sync_posted_batches:
  assumes "checkConnectivity e" and "sync cfg e s = Some run"
  shows "posted run = batches_of (nat (batchSize cfg)) (sort_key created_at_q (sync_queue s))
       \<and> concat (posted run) = sort_key created_at_q (sync_queue s)"
proof (cases "0 < batchSize cfg")
  case True
  from sync_posted[OF assms(1) True, of s] assms(2) True show ?thesis
    by (auto simp: fetchSyncQueueItems_def select_sync_queue_ordered_def concat_batches_of)
next
  case False
  then have "batchSize cfg \<le> 0" by simp
  from sync_nonpositive[OF assms(1) this assms(2)] show ?thesis
    by (simp add: fetchSyncQueueItems_def select_sync_queue_ordered_def)
qed

lemma sorted_concat_batches:
  "sorted (map f (concat xss)) \<Longrightarrow> j < k \<Longrightarrow> k < length xss \<Longrightarrow>
     a \<in> set (xss ! j) \<Longrightarrow> b \<in> set (xss ! k) \<Longrightarrow> f a \<le> (f b :: 'k :: linorder)"
proof (induction xss arbitrary: j k)
  case Nil
  then show ?case by simp
next
  case (Cons x xss)
  show ?case
  proof (cases j)
    case 0
    with Cons.prems obtain k' where k: "k = Suc k'" "k' < length xss"
      by (cases k) auto
    with Cons.prems have "b \<in> set (concat xss)" by auto
    moreover from 0 Cons.prems have "a \<in> set x" by simp
    ultimately show ?thesis using Cons.prems(1)
      by (auto simp: sorted_append)
  next
    case (Suc j')
    with Cons.prems obtain k' where k: "k = Suc k'" "j' < k'" "k' < length xss"
      by (cases k) auto
    from Cons.prems(1) have "sorted (map f (concat xss))"
      by (simp add: sorted_append)
    from Cons.IH[OF this k(2) k(3)] Suc k Cons.prems show ?thesis by simp
  qed
qed

text \<open>
  Claim C9. With connectivity, a run with a positive batch size returns, and every run
  that returns has posted the queue ordered by \<^verbatim>\<open>created_at\<close> ascending, cut into
  consecutive batches of the batch size (the last one possibly shorter), one after the
  other: the batches in posting order concatenate to the ordered queue, and of two entries
  with \<^verbatim>\<open>created_at\<close> \<open>t1 < t2\<close> the first is never in a later batch than the second.
\<close>

theorem batches_oldest_first:
  assumes "checkConnectivity e"
  shows "(0 < batchSize cfg \<longrightarrow> (\<exists>run. sync cfg e s = Some run))
       \<and> (\<forall>run. sync cfg e s = Some run \<longrightarrow>
            posted run = batches_of (nat (batchSize cfg)) (sort_key created_at_q (sync_queue s))
          \<and> concat (posted run) = sort_key created_at_q (sync_queue s)
          \<and> sorted (map created_at_q (concat (posted run)))
          \<and> (\<forall>j. Suc j < length (posted run) \<longrightarrow>
                length (posted run ! j) = nat (batchSize cfg))
          \<and> (\<forall>j k a b. j < length (posted run) \<and> k < length (posted run)
                \<and> a \<in> set (posted run ! j) \<and> b \<in> set (posted run ! k)
                \<and> created_at_q a < created_at_q b \<longrightarrow> j \<le> k))"
proof (intro conjI impI allI)
  assume "0 < batchSize cfg"
  from sync_posted[OF assms this, of s] show "\<exists>run. sync cfg e s = Some run" by blast
next
  fix run assume r: "sync cfg e s = Some run"
  note pb = sync_posted_batches[OF assms r]
  from pb show p: "posted run = batches_of (nat (batchSize cfg)) (sort_key created_at_q (sync_queue s))"
    by (rule conjunct1)
  from pb show c: "concat (posted run) = sort_key created_at_q (sync_queue s)"
    by (rule conjunct2)
  show s: "sorted (map created_at_q (concat (posted run)))" by (simp add: c)
  {
    fix j assume "Suc j < length (posted run)"
    then show "length (posted run ! j) = nat (batchSize cfg)"
      unfolding p by (rule batches_of_full)
  }
  {
    fix j k a b
    assume a: "j < length (posted run) \<and> k < length (posted run)
                \<and> a \<in> set (posted run ! j) \<and> b \<in> set (posted run ! k)
                \<and> created_at_q a < created_at_q b"
    show "j \<le> k"
    proof (rule ccontr)
      assume "\<not> j \<le> k"
      then have "k < j" by simp
      with sorted_concat_batches[OF s this, of b a] a show False by simp
    qed
  }
qed

section \<open>Response items\<close>

lemmas sync_ops = sync_def checkConnectivity_def fetchSyncQueueItems_def op_name_def
  spread_server_data_def updateSyncStatus_def handleSyncError_def or_default_def
  handleProcessedItem_def failItem_def slice_def batchStep_def empty_result_def
  default_config_def DEFAULT_BATCH_def DEFAULT_RETRIES_def syncLoop.simps

lemma updateSyncStatus_synced:
  "updateSyncStatus i Synced sd now s =
     \<lparr>tasks = map (\<lambda>r. if id_t r = i
                       then r\<lparr>sync_status := Synced,
                              server_id := (case sd of None \<Rightarrow> None
                                 | Some d \<Rightarrow> (case p_server_id d of Some (Some x) \<Rightarrow> Some x | _ \<Rightarrow> None)),
                              last_synced_at := Some now\<rparr>
                       else r) (tasks s),
      sync_queue = filter (\<lambda>q. task_id q \<noteq> i) (sync_queue s)\<rparr>"
  by (simp add: updateSyncStatus_def update_tasks_where_id_def delete_sync_queue_where_task_id_def)

lemma scenario_B:
  "sync default_config success_env created_db =
     Some \<lparr>store = \<lparr>tasks =
               [\<lparr>id_t = ''t1'', title = ''Buy milk'', description = None, completed = False,
                 created_at = 1, updated_at = 1, is_deleted = False, sync_status = Synced,
                 server_id = Some ''srv-1'', last_synced_at = Some 5\<rparr>],
             sync_queue = []\<rparr>,
           result = \<lparr>success = True, synced_items = 1, failed_items = 0, errors = []\<rparr>,
           posted = [[created_entry]]\<rparr>"
  by (simp add: created_db_eq success_env_def success_item_def created_entry_def sync_ops store_ops)

subsection \<open>A success item, seen from the end of the run\<close>

lemma filter_id_map:
  assumes "\<And>r. id_t (g r) = id_t r"
  shows "filter (\<lambda>r. id_t r = i) (map g xs) = map g (filter (\<lambda>r. id_t r = i) xs)"
  by (induction xs) (simp_all add: assms)

lemma rows_update_tasks:
  assumes "\<And>r. id_t (f r) = id_t r"
  shows "rows_with_id i (update_tasks_where_id j f s) =
           (if i = j then map f (rows_with_id i s) else rows_with_id i s)"
proof -
  have "filter (\<lambda>r. id_t r = i) (map (\<lambda>r. if id_t r = j then f r else r) xs) =
          (if i = j then map f (filter (\<lambda>r. id_t r = i) xs) else filter (\<lambda>r. id_t r = i) xs)" for xs
    by (induction xs) (auto simp: assms)
  then show ?thesis
    by (simp add: rows_with_id_def update_tasks_where_id_def)
qed

lemma rows_update_queue [simp]:
  "rows_with_id i (update_sync_queue_where_id j f s) = rows_with_id i s"
  "rows_with_id i (delete_sync_queue_where_task_id j s) = rows_with_id i s"
  by (simp_all add: rows_with_id_def update_sync_queue_where_id_def
      delete_sync_queue_where_task_id_def)

lemma entries_update_tasks [simp]:
  "entries_of i (update_tasks_where_id j f s) = entries_of i s"
  by (simp add: entries_of_def update_tasks_where_id_def)

lemma entries_update_queue:
  assumes "\<And>q. task_id (f q) = task_id q"
  shows "entries_of i (update_sync_queue_where_id j f s) =
           map (\<lambda>q. if id_q q = j then f q else q) (entries_of i s)"
proof -
  have "filter (\<lambda>q. task_id q = i) (map (\<lambda>q. if id_q q = j then f q else q) xs) =
          map (\<lambda>q. if id_q q = j then f q else q) (filter (\<lambda>q. task_id q = i) xs)" for xs
    by (induction xs) (auto simp: assms)
  then show ?thesis
    by (simp add: entries_of_def update_sync_queue_where_id_def)
qed

lemma entries_delete_queue:
  "entries_of i (delete_sync_queue_where_task_id j s) =
     (if i = j then [] else entries_of i s)"
  by (auto simp: entries_of_def delete_sync_queue_where_task_id_def filter_empty_conv
      intro: filter_cong)

lemma rows_updateSyncStatus:
  "rows_with_id i (updateSyncStatus j Synced sd now s) =
     (if i = j
      then map (synced_row (case sd of None \<Rightarrow> None
                  | Some d \<Rightarrow> (case p_server_id d of Some (Some x) \<Rightarrow> Some x | _ \<Rightarrow> None)) now)
             (rows_with_id i s)
      else rows_with_id i s)"
proof -
  let ?f = "\<lambda>r. r\<lparr>sync_status := Synced,
      server_id := (case sd of None \<Rightarrow> None
                  | Some d \<Rightarrow> (case p_server_id d of Some (Some x) \<Rightarrow> Some x | _ \<Rightarrow> None)),
      last_synced_at := Some now\<rparr>"
  have f: "?f = synced_row (case sd of None \<Rightarrow> None
                  | Some d \<Rightarrow> (case p_server_id d of Some (Some x) \<Rightarrow> Some x | _ \<Rightarrow> None)) now"
    by (rule ext) (simp add: synced_row_def)
  have "rows_with_id i (updateSyncStatus j Synced sd now s) =
          rows_with_id i (update_tasks_where_id j ?f s)"
    by (simp add: updateSyncStatus_def)
  also have "\<dots> = (if i = j then map ?f (rows_with_id i s) else rows_with_id i s)"
    by (rule rows_update_tasks) simp
  finally show ?thesis by (simp only: f)
qed

lemma entries_updateSyncStatus:
  "entries_of i (updateSyncStatus j Synced sd now s) = (if i = j then [] else entries_of i s)"
  by (simp add: updateSyncStatus_def entries_delete_queue)

lemma rows_handleSyncError:
  "rows_with_id i (handleSyncError cfg item err s) =
     (if i = task_id item \<and> maxRetries cfg \<le> retry_count item + 1
      then map (\<lambda>r. r\<lparr>sync_status := Error\<rparr>) (rows_with_id i s)
      else rows_with_id i s)"
  by (simp add: handleSyncError_def Let_def rows_update_tasks)

lemma entries_handleSyncError:
  "entries_of i s = [] \<Longrightarrow> entries_of i (handleSyncError cfg item err s) = []"
  by (simp add: handleSyncError_def Let_def entries_update_queue)

lemma rows_updateSyncStatus_any:
  "rows_with_id i (updateSyncStatus j st sd now s) =
     (if i = j
      then map (\<lambda>r. r\<lparr>sync_status := st,
                  server_id := (case sd of None \<Rightarrow> None
                    | Some d \<Rightarrow> (case p_server_id d of Some (Some x) \<Rightarrow> Some x | _ \<Rightarrow> None)),
                  last_synced_at := Some now\<rparr>)
             (rows_with_id i s)
      else rows_with_id i s)"
proof -
  let ?f = "\<lambda>r. r\<lparr>sync_status := st,
      server_id := (case sd of None \<Rightarrow> None
                  | Some d \<Rightarrow> (case p_server_id d of Some (Some x) \<Rightarrow> Some x | _ \<Rightarrow> None)),
      last_synced_at := Some now\<rparr>"
  have "rows_with_id i (updateSyncStatus j st sd now s) =
          rows_with_id i (update_tasks_where_id j ?f s)"
    by (simp add: updateSyncStatus_def Let_def)
  also have "\<dots> = (if i = j then map ?f (rows_with_id i s) else rows_with_id i s)"
    by (rule rows_update_tasks) simp
  finally show ?thesis .
qed

lemma synced_row_absorbs:
  "synced_row a b (r\<lparr>sync_status := x, server_id := y, last_synced_at := z\<rparr>) = synced_row a b r"
  "synced_row a b (r\<lparr>sync_status := x\<rparr>) = synced_row a b r"
  by (simp_all add: synced_row_def)

lemma rows_agree_refl: "rows_agree i s s"
  by (simp add: rows_agree_def)

lemma rows_agree_updateSyncStatus:
  "rows_agree i s s' \<Longrightarrow> rows_agree i s (updateSyncStatus j st sd now s')"
  by (auto simp: rows_agree_def rows_updateSyncStatus_any synced_row_absorbs comp_def)

lemma rows_agree_handleSyncError:
  "rows_agree i s s' \<Longrightarrow> rows_agree i s (handleSyncError cfg item err s')"
  by (auto simp: rows_agree_def rows_handleSyncError synced_row_absorbs comp_def)

lemma rows_agree_batchStep:
  "rows_agree i s (store run) \<Longrightarrow> rows_agree i s (store (batchStep cfg e batch run))"
  by (rule batchStep_keeps[where P = "rows_agree i s"])
    (simp_all add: rows_agree_updateSyncStatus rows_agree_handleSyncError)

lemma rows_agree_processItems:
  "rows_agree i s (fst sr) \<Longrightarrow> rows_agree i s (fst (processItems cfg now batch pis sr))"
  by (induction pis arbitrary: sr)
    (simp_all add: handleProcessedItem_keeps[where P = "rows_agree i s"]
      rows_agree_updateSyncStatus rows_agree_handleSyncError)

lemma spread_server_id:
  "(case p_server_id (spread_server_data sid rd) of Some (Some x) \<Rightarrow> Some x | _ \<Rightarrow> None) =
     (case rd of None \<Rightarrow> sid | Some d \<Rightarrow> (case p_server_id d of None \<Rightarrow> sid | Some v \<Rightarrow> v))"
  by (simp add: spread_server_data_def split: option.splits)

lemma settled_success:
  assumes "rows_agree i s s'" and "status pi = StSuccess" and "client_id pi = i"
  shows "settled i
           (case resolved_data pi of None \<Rightarrow> server_id_pi pi
            | Some d \<Rightarrow> (case p_server_id d of None \<Rightarrow> server_id_pi pi | Some v \<Rightarrow> v))
           now s (fst (handleProcessedItem cfg now batch pi (s', res)))"
proof -
  let ?X = "case resolved_data pi of None \<Rightarrow> server_id_pi pi
            | Some d \<Rightarrow> (case p_server_id d of None \<Rightarrow> server_id_pi pi | Some v \<Rightarrow> v)"
  have n: "synced_row ?X now \<circ> synced_row None 0 = synced_row ?X now"
    by (rule ext) (simp add: synced_row_def)
  from assms(1) have "map (synced_row ?X now) (map (synced_row None 0) (rows_with_id i s')) =
      map (synced_row ?X now) (map (synced_row None 0) (rows_with_id i s))"
    by (simp only: rows_agree_def)
  then have "map (synced_row ?X now) (rows_with_id i s') = map (synced_row ?X now) (rows_with_id i s)"
    by (simp only: map_map n)
  with assms(2,3) show ?thesis
    by (simp add: settled_def handleProcessedItem_def rows_updateSyncStatus
        entries_updateSyncStatus spread_server_id)
qed

lemma settled_updateSyncStatus:
  "settled i sid now s s' \<Longrightarrow> i \<noteq> j \<Longrightarrow>
     settled i sid now s (updateSyncStatus j Synced sd now' s')"
  by (simp add: settled_def rows_updateSyncStatus entries_updateSyncStatus)

lemma settled_handleSyncError:
  "settled i sid now s s' \<Longrightarrow> i \<noteq> task_id item \<Longrightarrow>
     settled i sid now s (handleSyncError cfg item err s')"
  by (auto simp: settled_def rows_handleSyncError entries_handleSyncError)

lemma settled_handleProcessedItem:
  assumes "settled i sid now s (fst sr)" and "i \<noteq> client_id p"
  shows "settled i sid now s (fst (handleProcessedItem cfg now' batch p sr))"
proof (cases sr)
  case (Pair s' res)
  with assms(1) have s': "settled i sid now s s'" by simp
  show ?thesis
  proof (cases "status p")
    case StSuccess
    with Pair settled_updateSyncStatus[OF s' assms(2)] show ?thesis
      by (simp add: handleProcessedItem_def)
  next
    case StConflict
    with Pair settled_updateSyncStatus[OF s' assms(2)] show ?thesis
      by (simp add: handleProcessedItem_def)
  next
    case StError
    show ?thesis
    proof (cases "find (\<lambda>it. task_id it = client_id p) batch")
      case None
      with StError Pair s' show ?thesis by (simp add: handleProcessedItem_def Let_def)
    next
      case (Some queueItem)
      then have "task_id queueItem = client_id p" by (auto simp: find_Some_iff)
      with assms(2) have "i \<noteq> task_id queueItem" by simp
      from settled_handleSyncError[OF s' this] StError Pair Some show ?thesis
        by (simp add: handleProcessedItem_def Let_def)
    qed
  qed
qed

lemma settled_processItems:
  "settled i sid now s (fst sr) \<Longrightarrow> i \<notin> set (map client_id pis) \<Longrightarrow>
     settled i sid now s (fst (processItems cfg now' batch pis sr))"
  by (induction pis arbitrary: sr) (auto simp: settled_handleProcessedItem)

lemma settled_failBatch:
  "settled i sid now s (fst sr) \<Longrightarrow> i \<notin> set (map task_id items) \<Longrightarrow>
     settled i sid now s (fst (failBatch cfg now' err items sr))"
proof (induction items arbitrary: sr)
  case Nil
  then show ?case by simp
next
  case (Cons item items)
  from Cons.prems have "settled i sid now s (fst (failItem cfg now' err item sr))"
    by (cases sr) (simp add: failItem_def settled_handleSyncError)
  with Cons.IH Cons.prems(2) show ?case by simp
qed

lemma settled_batchStep:
  assumes "settled i sid now s (store run)"
    and "leaves_alone i batch (remote e (length (posted run)) batch)"
  shows "settled i sid now s (store (batchStep cfg e batch run))"
  using assms
  by (auto simp: batchStep_def Let_def leaves_alone_def settled_processItems settled_failBatch
      split: batch_outcome.splits option.splits)

lemma processItems_append:
  "processItems cfg now batch (xs @ ys) sr =
     processItems cfg now batch ys (processItems cfg now batch xs sr)"
  by (induction xs arbitrary: sr) simp_all

lemma posted_batchStep: "posted (batchStep cfg e b run) = posted run @ [b]"
  by (simp add: batchStep_def Let_def)

lemma posted_foldl:
  "posted (foldl (\<lambda>r b. batchStep cfg e b r) run bs) = posted run @ bs"
  by (induction bs arbitrary: run) (simp_all add: posted_batchStep)

lemma rows_agree_foldl:
  "rows_agree i s (store run) \<Longrightarrow>
     rows_agree i s (store (foldl (\<lambda>r b. batchStep cfg e b r) run bs))"
  by (induction bs arbitrary: run) (simp_all add: rows_agree_batchStep)

lemma settled_foldl:
  assumes "settled i sid now s (store run)"
    and "\<forall>m<length bs. leaves_alone i (bs ! m) (remote e (length (posted run) + m) (bs ! m))"
  shows "settled i sid now s (store (foldl (\<lambda>r b. batchStep cfg e b r) run bs))"
  using assms
proof (induction bs arbitrary: run)
  case Nil
  then show ?case by simp
next
  case (Cons b bs)
  from Cons.prems(2) have "leaves_alone i b (remote e (length (posted run)) b)"
    by (auto dest: spec[of _ 0])
  with Cons.prems(1) have st: "settled i sid now s (store (batchStep cfg e b run))"
    by (rule settled_batchStep)
  have "\<forall>m<length bs. leaves_alone i (bs ! m)
          (remote e (length (posted (batchStep cfg e b run)) + m) (bs ! m))"
  proof (intro allI impI)
    fix m assume "m < length bs"
    with Cons.prems(2) have "leaves_alone i ((b # bs) ! Suc m)
        (remote e (length (posted run) + Suc m) ((b # bs) ! Suc m))"
      by (auto dest: spec[of _ "Suc m"])
    then show "leaves_alone i (bs ! m)
          (remote e (length (posted (batchStep cfg e b run)) + m) (bs ! m))"
      by (simp add: posted_batchStep)
  qed
  from Cons.IH[OF st this] show ?case by simp
qed

lemma syncLoop_foldl:
  "0 < batchSize cfg \<Longrightarrow> 0 \<le> i \<Longrightarrow>
     syncLoop cfg e items i run =
       Some (foldl (\<lambda>r b. batchStep cfg e b r) run
               (batches_of (nat (batchSize cfg)) (drop (nat i) items)))"
proof (induction cfg e items i run rule: syncLoop.induct)
  case (1 cfg e items i run)
  show ?case
  proof (cases "i < int (length items)")
    case True
    let ?b = "slice items i (i + batchSize cfg)"
    have pos: "\<not> batchSize cfg \<le> 0" using "1.prems" by simp
    have "0 \<le> i + batchSize cfg" using "1.prems" by simp
    note ih = "1.IH"[OF True pos "1.prems"(1) this]
    have nonempty: "drop (nat i) items \<noteq> []" using True "1.prems" by simp
    have d: "drop (nat (i + batchSize cfg)) items = drop (nat (batchSize cfg)) (drop (nat i) items)"
      using "1.prems" by (simp add: nat_add_distrib add.commute)
    have b: "?b = take (nat (batchSize cfg)) (drop (nat i) items)"
      by (simp add: slice_def)
    have "batches_of (nat (batchSize cfg)) (drop (nat i) items)
            = ?b # batches_of (nat (batchSize cfg)) (drop (nat (i + batchSize cfg)) items)"
      using nonempty "1.prems"(1) b d
      by (simp add: batches_of.simps[of "nat (batchSize cfg)" "drop (nat i) items"])
    with ih True pos show ?thesis
      by (simp add: syncLoop.simps[of cfg e items i run])
  next
    case False
    then have "drop (nat i) items = []" using "1.prems" by simp
    with False show ?thesis
      by (simp add: syncLoop.simps[of cfg e items i run])
  qed
qed

lemma sync_foldl:
  assumes "sync cfg e s = Some run" and "posted run \<noteq> []"
  shows "run = foldl (\<lambda>r b. batchStep cfg e b r)
                 \<lparr>store = s, result = empty_result, posted = []\<rparr> (posted run)"
proof -
  let ?init = "\<lparr>store = s, result = empty_result, posted = []\<rparr>"
  let ?items = "fetchSyncQueueItems s"
  from assms have c: "checkConnectivity e" and ne: "?items \<noteq> []"
    by (auto simp: sync_def Let_def split: if_splits)
  with assms(1) have l: "syncLoop cfg e ?items 0 ?init = Some run"
    by (simp add: sync_def Let_def)
  have pos: "0 < batchSize cfg"
  proof (rule ccontr)
    assume "\<not> 0 < batchSize cfg"
    with l ne show False by (simp add: syncLoop.simps[of cfg e ?items 0 ?init])
  qed
  from syncLoop_foldl[OF pos, of 0 e ?items ?init] l
  have r: "run = foldl (\<lambda>r b. batchStep cfg e b r) ?init (batches_of (nat (batchSize cfg)) ?items)"
    by simp
  then have "posted run = batches_of (nat (batchSize cfg)) ?items"
    by (simp add: posted_foldl)
  with r show ?thesis by simp
qed

text \<open>
  Claim C2, as amended. Take a run of \<^verbatim>\<open>sync\<close> that returns, and in the response to its
  \<open>k\<close>-th batch an item with status \<^verbatim>\<open>success\<close> that is the last thing the run handles
  for its record id: no later item of that response, no item of a later response and no
  entry of a later batch that fails has the id. At the end of the run the records of that
  id are the ones from before the run with \<^verbatim>\<open>sync_status = 'synced'\<close>, the
  \<^verbatim>\<open>server_id\<close> of the response (the one in \<^verbatim>\<open>resolved_data\<close> when it carries one, else
  the item's) and \<^verbatim>\<open>last_synced_at\<close> the reading of the local clock; and the queue has
  no entry for that id.
\<close>

theorem success_item_synced_by_run:
  assumes "sync cfg e s = Some run"
    and "k < length (posted run)"
    and "remote e k (posted run ! k) = PostReturns (Some (pre @ pi # post))"
    and "status pi = StSuccess"
    and "client_id pi \<notin> set (map client_id post)"
    and "\<forall>j. k < j \<and> j < length (posted run) \<longrightarrow>
           leaves_alone (client_id pi) (posted run ! j) (remote e j (posted run ! j))"
  shows "rows_with_id (client_id pi) (store run) =
           map (synced_row
                  (case resolved_data pi of
                     None \<Rightarrow> server_id_pi pi
                   | Some d \<Rightarrow> (case p_server_id d of None \<Rightarrow> server_id_pi pi | Some v \<Rightarrow> v))
                  (clock e))
             (rows_with_id (client_id pi) s)
         \<and> entries_of (client_id pi) (store run) = []"
proof -
  let ?i = "client_id pi"
  let ?X = "case resolved_data pi of None \<Rightarrow> server_id_pi pi
            | Some d \<Rightarrow> (case p_server_id d of None \<Rightarrow> server_id_pi pi | Some v \<Rightarrow> v)"
  let ?step = "\<lambda>r b. batchStep cfg e b r"
  let ?init = "\<lparr>store = s, result = empty_result, posted = []\<rparr>"
  let ?bs = "posted run"
  let ?b = "?bs ! k"
  from assms(2) have ne: "?bs \<noteq> []" by auto
  from sync_foldl[OF assms(1) ne] have run: "run = foldl ?step ?init ?bs" .
  from assms(2) have split: "?bs = take k ?bs @ ?b # drop (Suc k) ?bs"
    by (rule id_take_nth_drop)
  define rk where "rk = foldl ?step ?init (take k ?bs)"
  define rk1 where "rk1 = batchStep cfg e ?b rk"
  have fin: "run = foldl ?step rk1 (drop (Suc k) ?bs)"
  proof -
    have "foldl ?step ?init ?bs = foldl ?step ?init (take k ?bs @ ?b # drop (Suc k) ?bs)"
      using split by simp
    also have "\<dots> = foldl ?step rk1 (drop (Suc k) ?bs)"
      by (simp add: rk_def rk1_def)
    finally show ?thesis using run by simp
  qed
  have pk: "posted rk = take k ?bs"
    by (simp add: rk_def posted_foldl)
  with assms(2) have lk: "length (posted rk) = k" by simp
  have ak: "rows_agree ?i s (store rk)"
    unfolding rk_def by (rule rows_agree_foldl) (simp add: rows_agree_refl)
  \<comment> \<open>the batch that holds the item\<close>
  have st1: "store rk1 =
      fst (processItems cfg (clock e) ?b post
            (handleProcessedItem cfg (clock e) ?b pi
               (processItems cfg (clock e) ?b pre (store rk, result rk))))"
    by (simp add: rk1_def batchStep_def Let_def lk assms(3) processItems_append)
  obtain s1 res1 where pre: "processItems cfg (clock e) ?b pre (store rk, result rk) = (s1, res1)"
    by (cases "processItems cfg (clock e) ?b pre (store rk, result rk)")
  from rows_agree_processItems[of ?i s "(store rk, result rk)" cfg "clock e" ?b pre] ak pre
  have a1: "rows_agree ?i s s1" by simp
  from settled_success[OF a1 assms(4) refl, of "clock e" cfg ?b res1]
  have "settled ?i ?X (clock e) s (fst (handleProcessedItem cfg (clock e) ?b pi (s1, res1)))" .
  from settled_processItems[OF this assms(5), of cfg "clock e" ?b] st1 pre
  have s1: "settled ?i ?X (clock e) s (store rk1)" by simp
  \<comment> \<open>the batches after it\<close>
  have l1: "length (posted rk1) = Suc k"
    by (simp add: rk1_def posted_batchStep lk)
  have later: "\<forall>m<length (drop (Suc k) ?bs).
      leaves_alone ?i (drop (Suc k) ?bs ! m)
        (remote e (length (posted rk1) + m) (drop (Suc k) ?bs ! m))"
  proof (intro allI impI)
    fix m assume m: "m < length (drop (Suc k) ?bs)"
    then have j: "k < Suc k + m \<and> Suc k + m < length ?bs" by auto
    with assms(6) have "leaves_alone ?i (?bs ! (Suc k + m)) (remote e (Suc k + m) (?bs ! (Suc k + m)))"
      by blast
    with m j show "leaves_alone ?i (drop (Suc k) ?bs ! m)
        (remote e (length (posted rk1) + m) (drop (Suc k) ?bs ! m))"
      by (simp add: l1)
  qed
  from settled_foldl[OF s1 later, of cfg] fin
  have "settled ?i ?X (clock e) s (store run)" by simp
  then show ?thesis by (simp add: settled_def)
qed

lemma stamped_run_eq: "sync default_config stamped_env created_db = Some stamped_run"
  by (simp add: created_db_eq stamped_env_def stamped_item_def stamped_run_def no_fields_def
      created_entry_def sync_ops store_ops)

theorem success_item_synced_by_run_witness:
  "sync default_config stamped_env created_db = Some stamped_run
   \<and> remote stamped_env 0 (posted stamped_run ! 0) = PostReturns (Some ([] @ stamped_item # []))
   \<and> status stamped_item = StSuccess
   \<and> rows_with_id ''t1'' (store stamped_run) =
       [\<lparr>id_t = ''t1'', title = ''Buy milk'', description = None, completed = False,
         created_at = 1, updated_at = 1, is_deleted = False, sync_status = Synced,
         server_id = Some ''srv-2'', last_synced_at = Some 5\<rparr>]
   \<and> entries_of ''t1'' (store stamped_run) = []
   \<and> (\<exists>run. sync default_config success_env created_db = Some run
         \<and> remote success_env 0 (posted run ! 0) = PostReturns (Some ([] @ success_item # []))
         \<and> rows_with_id ''t1'' (store run) =
             [\<lparr>id_t = ''t1'', title = ''Buy milk'', description = None, completed = False,
               created_at = 1, updated_at = 1, is_deleted = False, sync_status = Synced,
               server_id = Some ''srv-1'', last_synced_at = Some 5\<rparr>]
         \<and> entries_of ''t1'' (store run) = [])"
proof -
  have h1: "sync default_config stamped_env created_db = Some stamped_run"
    by (rule stamped_run_eq)
  have h2: "0 < length (posted stamped_run)" by (simp add: stamped_run_def)
  have h3: "remote stamped_env 0 (posted stamped_run ! 0) =
      PostReturns (Some ([] @ stamped_item # []))"
    by (simp add: stamped_env_def)
  have h4: "status stamped_item = StSuccess" by (simp add: stamped_item_def)
  have h5: "client_id stamped_item \<notin> set (map client_id [])" by simp
  have h6: "\<forall>j. 0 < j \<and> j < length (posted stamped_run) \<longrightarrow>
      leaves_alone (client_id stamped_item) (posted stamped_run ! j)
        (remote stamped_env j (posted stamped_run ! j))"
    by (simp add: stamped_run_def)
  have i: "client_id stamped_item = ''t1''" "server_id_pi stamped_item = Some ''srv-1''"
    "resolved_data stamped_item =
       Some (no_fields\<lparr>p_server_id := Some (Some ''srv-2''), p_last_synced_at := Some 99\<rparr>)"
    "clock stamped_env = 5"
    by (simp_all add: stamped_item_def stamped_env_def)
  from success_item_synced_by_run[OF h1 h2 h3 h4 h5 h6]
  have "rows_with_id ''t1'' (store stamped_run) =
          map (synced_row (Some ''srv-2'') 5) (rows_with_id ''t1'' created_db)
        \<and> entries_of ''t1'' (store stamped_run) = []"
    by (simp add: i no_fields_def)
  then have first: "rows_with_id ''t1'' (store stamped_run) =
       [\<lparr>id_t = ''t1'', title = ''Buy milk'', description = None, completed = False,
         created_at = 1, updated_at = 1, is_deleted = False, sync_status = Synced,
         server_id = Some ''srv-2'', last_synced_at = Some 5\<rparr>]
     \<and> entries_of ''t1'' (store stamped_run) = []"
    by (simp add: rows_with_id_def created_db_eq synced_row_def)
  \<comment> \<open>the plain item of scenario B\<close>
  from scenario_B obtain run where g1: "sync default_config success_env created_db = Some run"
    and p: "posted run = [[created_entry]]"
    by simp
  have g2: "0 < length (posted run)" by (simp add: p)
  have g3: "remote success_env 0 (posted run ! 0) = PostReturns (Some ([] @ success_item # []))"
    by (simp add: success_env_def)
  have g4: "status success_item = StSuccess" by (simp add: success_item_def)
  have g5: "client_id success_item \<notin> set (map client_id [])" by simp
  have g6: "\<forall>j. 0 < j \<and> j < length (posted run) \<longrightarrow>
      leaves_alone (client_id success_item) (posted run ! j)
        (remote success_env j (posted run ! j))"
    by (simp add: p)
  have i': "client_id success_item = ''t1''" "server_id_pi success_item = Some ''srv-1''"
    "resolved_data success_item = None" "clock success_env = 5"
    by (simp_all add: success_item_def success_env_def)
  from success_item_synced_by_run[OF g1 g2 g3 g4 g5 g6]
  have "rows_with_id ''t1'' (store run) =
          map (synced_row (Some ''srv-1'') 5) (rows_with_id ''t1'' created_db)
        \<and> entries_of ''t1'' (store run) = []"
    by (simp add: i')
  then have second: "rows_with_id ''t1'' (store run) =
       [\<lparr>id_t = ''t1'', title = ''Buy milk'', description = None, completed = False,
         created_at = 1, updated_at = 1, is_deleted = False, sync_status = Synced,
         server_id = Some ''srv-1'', last_synced_at = Some 5\<rparr>]
     \<and> entries_of ''t1'' (store run) = []"
    by (simp add: rows_with_id_def created_db_eq synced_row_def)
  from g1 g3 second have "\<exists>run. sync default_config success_env created_db = Some run
         \<and> remote success_env 0 (posted run ! 0) = PostReturns (Some ([] @ success_item # []))
         \<and> rows_with_id ''t1'' (store run) =
             [\<lparr>id_t = ''t1'', title = ''Buy milk'', description = None, completed = False,
               created_at = 1, updated_at = 1, is_deleted = False, sync_status = Synced,
               server_id = Some ''srv-1'', last_synced_at = Some 5\<rparr>]
         \<and> entries_of ''t1'' (store run) = []"
    by blast
  with h1 h3 h4 first show ?thesis by blast
qed

text \<open>
  Claim C2 as stated fails in two ways. A success item whose \<^verbatim>\<open>resolved_data\<close> carries
  \<^verbatim>\<open>last_synced_at = 99\<close> and a server id of its own leaves the record with the local
  clock's 5 and with that server id, not the item's. And when the response has two success
  items for one record, the record ends with the server id of the second.
\<close>

theorem success_fields_not_from_item:
  "sync default_config stamped_env created_db = Some stamped_run
   \<and> status stamped_item = StSuccess
   \<and> Option.bind (resolved_data stamped_item) p_last_synced_at = Some 99
   \<and> clock stamped_env = 5
   \<and> map last_synced_at (tasks (store stamped_run)) = [Some 5]
   \<and> server_id_pi stamped_item = Some ''srv-1''
   \<and> map server_id (tasks (store stamped_run)) = [Some ''srv-2'']
   \<and> status success_item = StSuccess
   \<and> server_id_pi success_item = Some ''srv-1''
   \<and> map_option (\<lambda>run. map server_id (tasks (store run)))
         (sync default_config twin_env edited_db) = Some [Some ''srv-9'']"
  using stamped_run_eq
  by (simp add: stamped_item_def stamped_env_def stamped_run_def no_fields_def
      success_item_def twin_item_def twin_env_def edited_db_eq created_entry_def
      edited_entry_def sync_ops store_ops)


subsection \<open>A conflict item\<close>

text \<open>
  Claim C1, evaluated on the code. A task is created and edited locally
  (\<open>edited_db\<close>); the remote answers the batch with one \<^verbatim>\<open>conflict\<close> item whose
  \<^verbatim>\<open>resolved_data\<close> carries the title \<^verbatim>\<open>Server title\<close>. After the run the record is
  synced, has the server id and no queue entry, as for a \<^verbatim>\<open>success\<close> item, and its
  title is still the local one: \<^verbatim>\<open>updateSyncStatus\<close> writes three columns and none of
  them is the title (\<open>sync_titles\<close>: no run changes any title).
\<close>

theorem conflict_resolved_data_not_applied:
  "sync default_config conflict_env edited_db =
     Some \<lparr>store = \<lparr>tasks =
               [\<lparr>id_t = ''t1'', title = ''Local edit'', description = None, completed = False,
                 created_at = 1, updated_at = 2, is_deleted = False, sync_status = Synced,
                 server_id = Some ''srv-1'', last_synced_at = Some 5\<rparr>],
             sync_queue = []\<rparr>,
           result = \<lparr>success = True, synced_items = 1, failed_items = 0, errors = []\<rparr>,
           posted = [sync_queue edited_db]\<rparr>"
  by (simp add: edited_db_eq conflict_env_def conflict_item_def no_fields_def created_entry_def
      edited_entry_def sync_ops store_ops)

text \<open>
  Claim C4, evaluated on the code. Three runs that fail in transport leave the entry
  with \<^verbatim>\<open>retry_count = 3\<close> and the record in \<^verbatim>\<open>error\<close> (\<open>stuck_db\<close>). A fourth run
  posts the entry again, since \<^verbatim>\<open>fetchSyncQueueItems\<close> selects every row of the queue,
  and on failure the count becomes 4.
\<close>

theorem exhausted_entry_posted_again:
  "sync_times 3 default_config failing_env created_db = Some stuck_db
   \<and> sync default_config failing_env stuck_db =
       Some \<lparr>store = stuck_db\<lparr>sync_queue :=
                 [created_entry\<lparr>retry_count := 4, error_message := Some ''Network Error''\<rparr>]\<rparr>,
             result = \<lparr>success = False, synced_items = 0, failed_items = 1,
                       errors = [\<lparr>task_id_e = ''t1'', operation_e = ''create'',
                                  error_e = ''Network Error'', timestamp_e = 5\<rparr>]\<rparr>,
             posted = [sync_queue stuck_db]\<rparr>"
  by (simp add: eval_nat_numeral created_db_eq stuck_db_def failing_env_def created_entry_def
      sync_ops store_ops)

lemma twice_failed: "sync_times 2 default_config failing_env edited_db = Some twice_failed_db"
  by (simp add: eval_nat_numeral edited_db_eq twice_failed_db_def failing_env_def created_entry_def
      edited_entry_def sync_ops store_ops)

lemma third_run: "map_option store (sync default_config split_env twice_failed_db) = Some stale_error_db"
  by (simp add: edited_db_eq twice_failed_db_def stale_error_db_def split_env_def
      success_item_def rejected_item_def created_entry_def edited_entry_def sync_ops store_ops)

section \<open>Stale entries, and the title guard\<close>

lemma reachable_edited_db: "reachable edited_db"
proof -
  have "''t1'' \<notin> set (map id_t (tasks empty_db))" by (simp add: empty_db_def)
  with r_empty have "reachable created_db"
    unfolding created_db_def by (rule r_create)
  then show ?thesis
    unfolding edited_db_def by (rule r_update)
qed

text \<open>
  Claim C8, evaluated on the code. A task is created and edited, two runs fail in
  transport, and in the third run the remote accepts the first entry of the task and
  rejects the second. Handling the accepted item deletes both entries; handling the
  rejected one runs retry bookkeeping on the entry found in the batch read at the start
  of the run, whose count reaches the maximum. The state reached has the record in
  \<^verbatim>\<open>error\<close> and no queue entry for it. The other two parts of the claim hold in every
  reachable state (\<open>reachable_queue_inv\<close>).
\<close>

theorem error_record_without_queue_entry:
  "reachable stale_error_db
   \<and> sync_times 2 default_config failing_env edited_db = Some twice_failed_db
   \<and> map_option store (sync default_config split_env twice_failed_db) = Some stale_error_db
   \<and> map sync_status (tasks stale_error_db) = [Error]
   \<and> sync_queue stale_error_db = []"
proof -
  from reachable_edited_db twice_failed have r2: "reachable twice_failed_db"
    by (rule reachable_sync_times)
  from third_run obtain run where run: "sync default_config split_env twice_failed_db = Some run"
    and st: "store run = stale_error_db"
    by auto
  from r2 run have "reachable (store run)" by (rule r_sync)
  with st have "reachable stale_error_db" by simp
  with twice_failed third_run show ?thesis
    by (simp add: stale_error_db_def)
qed

lemma batches_of_Cons:
  "0 < n \<Longrightarrow> batches_of n (x # xs) = take n (x # xs) # batches_of n (drop n (x # xs))"
  by (simp add: batches_of.simps[of n "x # xs"])

theorem batches_oldest_first_witness:
  "checkConnectivity failing_env
   \<and> (\<exists>run. sync one_by_one failing_env edited_db = Some run
         \<and> posted run = [[created_entry], [edited_entry]]
         \<and> concat (posted run) = sync_queue edited_db)"
proof -
  have h: "checkConnectivity failing_env"
    by (simp add: checkConnectivity_def failing_env_def)
  have b: "0 < batchSize one_by_one" "nat (batchSize one_by_one) = 1"
    by (simp_all add: one_by_one_def)
  have q: "sort_key created_at_q (sync_queue edited_db) = [created_entry, edited_entry]"
    by (simp add: edited_db_eq created_entry_def edited_entry_def)
  have c: "batches_of 1 [created_entry, edited_entry] = [[created_entry], [edited_entry]]"
    by (simp add: batches_of_Cons)
  from batches_oldest_first[OF h, of one_by_one edited_db] b(1)
  obtain run where r: "sync one_by_one failing_env edited_db = Some run"
    by blast
  with batches_oldest_first[OF h, of one_by_one edited_db]
  have "posted run = batches_of (nat (batchSize one_by_one))
          (sort_key created_at_q (sync_queue edited_db))"
    by blast
  with b q c have "posted run = [[created_entry], [edited_entry]]" by simp
  with r h show ?thesis by (simp add: edited_db_eq)
qed

subsection \<open>Trimming\<close>

lemma dropWhile_rev_dropWhile_rev:
  assumes "u = [] \<or> \<not> P (hd u)"
  shows "dropWhile P (rev (dropWhile P (rev u))) = rev (dropWhile P (rev u))"
proof -
  define v where "v = rev (dropWhile P (rev u))"
  have "u = rev (rev u)" by simp
  also have "\<dots> = rev (takeWhile P (rev u) @ dropWhile P (rev u))"
    by (simp only: takeWhile_dropWhile_id)
  also have "\<dots> = v @ rev (takeWhile P (rev u))"
    by (simp only: rev_append v_def)
  finally have u: "u = v @ rev (takeWhile P (rev u))" .
  have "dropWhile P v = v"
  proof (cases v)
    case Nil
    then show ?thesis by simp
  next
    case (Cons x xs)
    with u have "u = x # xs @ rev (takeWhile P (rev u))" by simp
    then have "u \<noteq> []" "hd u = x" by (metis list.distinct(1), metis list.sel(1))
    with assms have "\<not> P x" by simp
    with Cons show ?thesis by simp
  qed
  then show ?thesis by (simp add: v_def)
qed

lemma trim_idem: "trim (trim t) = trim t"
proof -
  let ?u = "dropWhile is_ws t"
  have "?u = [] \<or> \<not> is_ws (hd ?u)" by (metis hd_dropWhile)
  then have "dropWhile is_ws (trim t) = trim t"
    unfolding trim_def by (rule dropWhile_rev_dropWhile_rev)
  then show ?thesis
    by (simp add: trim_def)
qed

lemma updateTask_titles:
  assumes "[] \<notin> set (map title (tasks s))"
    and "case p_title updates of None \<Rightarrow> True | Some t \<Rightarrow> trim t \<noteq> []"
  shows "[] \<notin> set (map title (tasks (snd (updateTask i queueId now updates s))))"
proof (cases "select_task_by_id i s")
  case None
  with assms(1) show ?thesis by (simp add: updateTask_def)
next
  case (Some existing)
  then have "existing \<in> set (tasks s)"
    by (auto simp: select_task_by_id_def find_Some_iff)
  with assms(1) have "title existing \<noteq> []" by (auto simp: image_iff)
  with assms Some show ?thesis
    by (cases "p_title updates")
      (auto simp: updateTask_def update_tasks_where_id_def insert_sync_queue_def Let_def
        image_iff)
qed

text \<open>
  The guard against an empty title is in the route: a \<^verbatim>\<open>PUT\<close> whose body has a title
  that is not a string, or is empty after trimming, is answered 400 and the database is
  unchanged; and no \<^verbatim>\<open>PUT\<close> stores an empty title in a table that has none.
\<close>

theorem put_rejects_blank_title:
  "(rejected_title (b_title body) \<longrightarrow>
      putTask i queueId now body s =
        (Res 400 ''If provided, title must be a non-empty string'', s))
   \<and> ([] \<notin> set (map title (tasks s)) \<longrightarrow>
        [] \<notin> set (map title (tasks (snd (putTask i queueId now body s)))))"
proof (intro conjI impI)
  assume "rejected_title (b_title body)"
  then show "putTask i queueId now body s =
      (Res 400 ''If provided, title must be a non-empty string'', s)"
    by (simp add: putTask_def)
next
  assume a: "[] \<notin> set (map title (tasks s))"
  show "[] \<notin> set (map title (tasks (snd (putTask i queueId now body s))))"
  proof (cases "rejected_title (b_title body)")
    case True
    with a show ?thesis by (simp add: putTask_def)
  next
    case False
    let ?updates = "\<lparr>p_title = (case b_title body of Some (JStr t) \<Rightarrow> Some (trim t) | _ \<Rightarrow> None),
               p_description = b_description body,
               p_completed = map_option truthy (b_completed body),
               p_updated_at = None, p_server_id = None,
               p_last_synced_at = None\<rparr>"
    from False have "case p_title ?updates of None \<Rightarrow> True | Some t \<Rightarrow> trim t \<noteq> []"
      by (auto simp: rejected_title_def trim_idem split: option.splits json.splits)
    from updateTask_titles[OF a this, of i queueId now] False show ?thesis
      by (simp add: putTask_def Let_def split_beta split: option.splits)
  qed
qed

theorem put_rejects_blank_title_witness:
  "rejected_title (b_title blank_title_body)
   \<and> putTask ''t1'' ''q2'' 2 blank_title_body created_db =
       (Res 400 ''If provided, title must be a non-empty string'', created_db)
   \<and> [] \<notin> set (map title (tasks created_db))
   \<and> [] \<notin> set (map title (tasks (snd (putTask ''t1'' ''q2'' 2 padded_title_body created_db))))"
proof -
  have h1: "rejected_title (b_title blank_title_body)"
    by (simp add: rejected_title_def blank_title_body_def trim_def is_ws_def)
  have h2: "[] \<notin> set (map title (tasks created_db))"
    by (simp add: created_db_eq)
  from put_rejects_blank_title[of blank_title_body "''t1''" "''q2''" 2 created_db] h1
  have a: "putTask ''t1'' ''q2'' 2 blank_title_body created_db =
       (Res 400 ''If provided, title must be a non-empty string'', created_db)"
    by blast
  from put_rejects_blank_title[of padded_title_body "''t1''" "''q2''" 2 created_db] h2
  have b: "[] \<notin> set (map title (tasks (snd (putTask ''t1'' ''q2'' 2 padded_title_body created_db))))"
    by blast
  from h1 h2 a b show ?thesis by blast
qed

text \<open>
  Claim C6, evaluated on the code. \<^verbatim>\<open>updateTask\<close> has no check of the title, unlike
  \<^verbatim>\<open>createTask\<close>: called with a title of three blanks on an existing record that is not
  deleted, it returns the record, stores the empty title and enqueues an entry.
\<close>

theorem updateTask_stores_blank_title:
  "getTask ''t1'' created_db \<noteq> None
   \<and> trim ''   '' = []
   \<and> updateTask ''t1'' ''q2'' 2 (no_fields\<lparr>p_title := Some ''   ''\<rparr>) created_db =
       (Some blank_title_row,
        \<lparr>tasks = [blank_title_row],
         sync_queue = [created_entry,
           \<lparr>id_q = ''q2'', task_id = ''t1'', operation = Update,
            data = \<lparr>id_p = ''t1'', title_p = [], description_p = None,
                    completed_p = False, created_at_p = 1, updated_at_p = 2,
                    is_deleted_p = False\<rparr>,
            created_at_q = 2, retry_count = 0, error_message = None\<rparr>]\<rparr>)"
  by (simp add: created_db_eq getTask_def updateTask_def store_ops no_fields_def trim_def
      is_ws_def blank_title_row_def)

end
